theory Spec2Isabelle
  imports Complex_Main "HOL-Library.Char_ord" "HOL-Library.List_Lexorder"
    "HOL-Library.Mapping" "HOL-Library.AList_Mapping"
begin

section \<open>Timestamps\<close>

text \<open>
  The aggregator only ever sees timestamps that \<open>parseTime\<close> has produced from a string of
  the upstream API. Go's \<open>time.Parse\<close> keeps the civil fields it has read together with the
  zone offset written in the string, and \<open>Format\<close> and \<open>ISOWeek\<close> print those civil fields
  again, so a parsed \<open>time.Time\<close> is represented by its civil fields and its offset. The
  instant it denotes is computed from them (\<open>unixNano\<close>); \<open>After\<close> and \<open>Sub\<close> compare
  instants, as in Go. Values read from the process clock are only compared and subtracted,
  so they are represented by their instant alone (nanoseconds since the Unix epoch).
\<close>

record time =
  tYear :: int
  tMonth :: int
  tDay :: int
  tHour :: int
  tMin :: int
  tSec :: int
  tNsec :: int
  tOffset :: int \<comment> \<open>seconds east of UTC\<close>

definition isLeap :: "int \<Rightarrow> bool" where
  "isLeap y = (y mod 4 = 0 \<and> (y mod 100 \<noteq> 0 \<or> y mod 400 = 0))"

text \<open>Go's table \<open>daysBefore\<close>: days of a non-leap year before the first of month \<open>m + 1\<close>.\<close>

definition daysBefore :: "nat \<Rightarrow> int" where
  "daysBefore m = [0, 31, 59, 90, 120, 151, 181, 212, 243, 273, 304, 334, 365] ! m"

definition daysIn :: "int \<Rightarrow> int \<Rightarrow> int" where
  "daysIn m y = (if m = 2 \<and> isLeap y then 29
                 else daysBefore (nat m) - daysBefore (nat m - 1))"

definition yearLen :: "int \<Rightarrow> int" where
  "yearLen y = (if isLeap y then 366 else 365)"

text \<open>Days from 0001-01-01 to the first of January of year \<open>y\<close> (proleptic Gregorian).\<close>

definition daysBeforeYear :: "int \<Rightarrow> int" where
  "daysBeforeYear y = 365 * (y - 1) + (y - 1) div 4 - (y - 1) div 100 + (y - 1) div 400"

text \<open>The day of the year, counted from 0 (Go's \<open>yday\<close> inside \<open>absDate\<close>).\<close>

definition yearDay :: "time \<Rightarrow> int" where
  "yearDay t = daysBefore (nat (tMonth t) - 1)
               + (if isLeap (tYear t) \<and> 2 < tMonth t then 1 else 0) + (tDay t - 1)"

definition absDays :: "time \<Rightarrow> int" where
  "absDays t = daysBeforeYear (tYear t) + yearDay t"

text \<open>0001-01-01 is day 0 and 1970-01-01 is day 719162.\<close>

definition unixSec :: "time \<Rightarrow> int" where
  "unixSec t = (absDays t - 719162) * 86400 + tHour t * 3600 + tMin t * 60 + tSec t - tOffset t"

definition unixNano :: "time \<Rightarrow> int" where
  "unixNano t = unixSec t * 1000000000 + tNsec t"

definition After :: "time \<Rightarrow> time \<Rightarrow> bool" where
  "After t u = (unixNano u < unixNano t)"

definition Before :: "time \<Rightarrow> time \<Rightarrow> bool" where
  "Before t u = (unixNano t < unixNano u)"

text \<open>
  A \<open>time.Duration\<close> is an \<open>int64\<close> count of nanoseconds; \<open>Sub\<close> saturates at its bounds
  instead of wrapping.
\<close>

definition maxDuration :: int where
  "maxDuration = 2 ^ 63 - 1"

definition minDuration :: int where
  "minDuration = - (2 ^ 63)"

definition satDuration :: "int \<Rightarrow> int" where
  "satDuration d = (if maxDuration < d then maxDuration
                    else if d < minDuration then minDuration else d)"

definition Sub :: "time \<Rightarrow> time \<Rightarrow> int" where
  "Sub t u = satDuration (unixNano t - unixNano u)"

text \<open>
  \<open>Duration.Minutes\<close> returns a \<open>float64\<close>. Floating-point numbers are idealised as exact
  rationals throughout: the rounding of \<open>float64\<close> is not modelled.
\<close>

definition Minutes :: "int \<Rightarrow> rat" where
  "Minutes d = of_int d / 60000000000"

definition validTime :: "time \<Rightarrow> bool" where
  "validTime t = (0 \<le> tYear t \<and> tYear t \<le> 9999 \<and> 1 \<le> tMonth t \<and> tMonth t \<le> 12
     \<and> 1 \<le> tDay t \<and> tDay t \<le> daysIn (tMonth t) (tYear t)
     \<and> 0 \<le> tHour t \<and> tHour t < 24 \<and> 0 \<le> tMin t \<and> tMin t < 60
     \<and> 0 \<le> tSec t \<and> tSec t < 60 \<and> 0 \<le> tNsec t \<and> tNsec t < 1000000000)"

subsection \<open>Printing integers\<close>

definition digitChar :: "nat \<Rightarrow> char" where
  "digitChar n = ''0123456789'' ! n"

fun digits :: "nat \<Rightarrow> string" where
  "digits n = (if n < 10 then [digitChar n] else digits (n div 10) @ [digitChar (n mod 10)])"

declare digits.simps [simp del]

text \<open>
  \<open>fmtInt w x\<close> is \<open>fmt.Sprintf\<close> with the verb \<open>%0wd\<close> (and \<open>%d\<close> for \<open>w = 0\<close>): the sign
  counts towards the width. \<open>appendInt x w\<close> is the helper of \<open>Time.Format\<close>: the sign comes
  first and the digits alone are padded to the width.
\<close>

definition fmtInt :: "nat \<Rightarrow> int \<Rightarrow> string" where
  "fmtInt w x = (let ds = digits (nat \<bar>x\<bar>) in
     if x < 0 then CHR ''-'' # replicate (w - 1 - length ds) CHR ''0'' @ ds
     else replicate (w - length ds) CHR ''0'' @ ds)"

definition appendInt :: "int \<Rightarrow> nat \<Rightarrow> string" where
  "appendInt x w = (let ds = digits (nat \<bar>x\<bar>) in
     (if x < 0 then ''-'' else '''') @ replicate (w - length ds) CHR ''0'' @ ds)"

subsection \<open>Bucket keys\<close>

text \<open>
  \<open>ISOWeek\<close>: the ISO week-year and week number are the year of the Thursday of the week of
  \<open>t\<close> and one more than the number of whole weeks before that Thursday in its year. Day 0
  (0001-01-01) is a Monday, so \<open>absDays t mod 7\<close> counts the weekday from Monday.
\<close>

definition ISOWeek :: "time \<Rightarrow> int \<times> int" where
  "ISOWeek t =
     (let y = tYear t;
          yd = yearDay t + (3 - absDays t mod 7)
      in if yd < 0 then (y - 1, (yd + yearLen (y - 1)) div 7 + 1)
         else if yearLen y \<le> yd then (y + 1, (yd - yearLen y) div 7 + 1)
         else (y, yd div 7 + 1))"

definition weekKey :: "time \<Rightarrow> string" where
  "weekKey t = (case ISOWeek t of (year, week) \<Rightarrow> fmtInt 0 year @ ''-W'' @ fmtInt 2 week)"

definition dayKey :: "time \<Rightarrow> string" where
  "dayKey t = appendInt (tYear t) 4 @ ''-'' @ appendInt (tMonth t) 2 @ ''-'' @ appendInt (tDay t) 2"

subsection \<open>Parsing\<close>

definition isDigit :: "char \<Rightarrow> bool" where
  "isDigit c = (CHR ''0'' \<le> c \<and> c \<le> CHR ''9'')"

definition digitVal :: "char \<Rightarrow> int" where
  "digitVal c = int (of_char c) - 48"

definition atoi :: "string \<Rightarrow> int option" where
  "atoi s = (if s \<noteq> [] \<and> list_all isDigit s
             then Some (foldl (\<lambda>a c. 10 * a + digitVal c) 0 s) else None)"

text \<open>Go's \<open>getnum\<close>: one or two digits, exactly two when \<open>fixed\<close>.\<close>

fun getnum :: "string \<Rightarrow> bool \<Rightarrow> (int \<times> string) option" where
  "getnum (a # b # r) fixed =
     (if \<not> isDigit a then None
      else if \<not> isDigit b then (if fixed then None else Some (digitVal a, b # r))
      else Some (digitVal a * 10 + digitVal b, r))"
| "getnum [a] fixed = (if isDigit a \<and> \<not> fixed then Some (digitVal a, []) else None)"
| "getnum [] fixed = None"

fun expect :: "char \<Rightarrow> string \<Rightarrow> string option" where
  "expect c (x # r) = (if x = c then Some r else None)"
| "expect c [] = None"

text \<open>
  \<open>parseNanoseconds\<close> on the digits after the separator: at most nine digits count, and
  fewer are scaled up.
\<close>

definition parseNanoseconds :: "string \<Rightarrow> int option" where
  "parseNanoseconds ds = (let d9 = take 9 ds in
     map_option (\<lambda>n. n * 10 ^ (9 - length d9)) (atoi d9))"

text \<open>The date and clock part shared by both layouts: \<open>2006-01-02T15:04:05\<close>.\<close>

definition parseDateClock :: "string \<Rightarrow> ((int \<times> int \<times> int \<times> int \<times> int \<times> int) \<times> string) option" where
  "parseDateClock s =
     Option.bind (atoi (take 4 s)) (\<lambda>y.
     if length s < 4 then None else
     Option.bind (expect CHR ''-'' (drop 4 s)) (\<lambda>s1.
     Option.bind (getnum s1 True) (\<lambda>(mo, s2).
     Option.bind (expect CHR ''-'' s2) (\<lambda>s3.
     Option.bind (getnum s3 True) (\<lambda>(d, s4).
     Option.bind (expect CHR ''T'' s4) (\<lambda>s5.
     Option.bind (getnum s5 False) (\<lambda>(h, s6).
     Option.bind (expect CHR '':'' s6) (\<lambda>s7.
     Option.bind (getnum s7 True) (\<lambda>(mi, s8).
     Option.bind (expect CHR '':'' s8) (\<lambda>s9.
     Option.bind (getnum s9 True) (\<lambda>(sec, s10).
     if mo < 1 \<or> 12 < mo \<or> d < 1 \<or> daysIn mo y < d \<or> 24 \<le> h \<or> 60 \<le> mi \<or> 60 \<le> sec
     then None else Some ((y, mo, d, h, mi, sec), s10))))))))))))"

text \<open>A numeric zone, \<open>+hh:mm\<close> when \<open>colon\<close> and \<open>+hhmm\<close> otherwise, up to the end of the input.\<close>

definition parseNumTZ :: "bool \<Rightarrow> string \<Rightarrow> int option" where
  "parseNumTZ colon s =
     (case s of [] \<Rightarrow> None
      | sg # r \<Rightarrow>
        if sg \<noteq> CHR ''+'' \<and> sg \<noteq> CHR ''-'' then None else
        Option.bind (getnum r True) (\<lambda>(hr, r1).
        Option.bind (if colon then expect CHR '':'' r1 else Some r1) (\<lambda>r2.
        Option.bind (getnum r2 True) (\<lambda>(mm, r3).
        if r3 \<noteq> [] \<or> 24 < hr \<or> 60 < mm then None
        else Some ((if sg = CHR ''-'' then -1 else 1) * ((hr * 60 + mm) * 60))))))"

definition mkTime :: "(int \<times> int \<times> int \<times> int \<times> int \<times> int) \<Rightarrow> int \<Rightarrow> int \<Rightarrow> time" where
  "mkTime f ns off = (case f of (y, mo, d, h, mi, sec) \<Rightarrow>
     \<lparr>tYear = y, tMonth = mo, tDay = d, tHour = h, tMin = mi, tSec = sec,
      tNsec = ns, tOffset = off\<rparr>)"

text \<open>
  \<open>time.Parse(time.RFC3339, s)\<close>: the layout \<open>2006-01-02T15:04:05Z07:00\<close>. A fractional
  second after the seconds is accepted although the layout has none.
\<close>

definition parseRFC3339 :: "string \<Rightarrow> time option" where
  "parseRFC3339 s =
     Option.bind (parseDateClock s) (\<lambda>(f, r).
       let hasFrac = (2 \<le> length r \<and> (hd r = CHR ''.'' \<or> hd r = CHR '','') \<and> isDigit (r ! 1));
           fr = (if hasFrac then takeWhile isDigit (tl r) else []);
           r1 = (if hasFrac then dropWhile isDigit (tl r) else r)
       in Option.bind (if hasFrac then parseNanoseconds fr else Some 0) (\<lambda>ns.
          if r1 = ''Z'' then Some (mkTime f ns 0)
          else map_option (mkTime f ns) (parseNumTZ True r1)))"

text \<open>
  \<open>time.Parse("2006-01-02T15:04:05.000-0700", s)\<close>: exactly three fractional digits and a
  numeric zone without colon.
\<close>

definition parseMillisTZ :: "string \<Rightarrow> time option" where
  "parseMillisTZ s =
     Option.bind (parseDateClock s) (\<lambda>(f, r).
       if length r < 4 \<or> \<not> (hd r = CHR ''.'' \<or> hd r = CHR '','') then None
       else Option.bind (parseNanoseconds (take 3 (tl r))) (\<lambda>ns.
            map_option (mkTime f ns) (parseNumTZ False (drop 4 r))))"

definition parseTime :: "string \<Rightarrow> time option" where
  "parseTime s =
     (if s = '''' then None
      else case parseRFC3339 s of
             Some t \<Rightarrow> Some t
           | None \<Rightarrow> parseMillisTZ s)"

section \<open>Build records\<close>

record BuildkiteBuild =
  ID :: string
  Number :: int
  State :: string \<comment> \<open>passed, failed, canceled, running, scheduled\<close>
  StartedAt :: string
  FinishedAt :: string
  CreatedAt :: string
  ScheduledAt :: string
  PipelineSlug :: string
  PipelineName :: string
  Branch :: string
  Commit :: string
  Message :: string

definition buildkiteMaxPages :: nat where
  "buildkiteMaxPages = 10"

definition buildkitePerPage :: nat where
  "buildkitePerPage = 100"

text \<open>\<open>strings.ToLower\<close>, on ASCII letters; other bytes are left as they are.\<close>

definition toLowerChar :: "char \<Rightarrow> char" where
  "toLowerChar c = (if CHR ''A'' \<le> c \<and> c \<le> CHR ''Z'' then char_of (of_char c + (32::nat)) else c)"

definition ToLower :: "string \<Rightarrow> string" where
  "ToLower s = map toLowerChar s"

definition isDeploymentPipeline :: "BuildkiteBuild \<Rightarrow> bool" where
  "isDeploymentPipeline build =
     (let slug = ToLower (PipelineSlug build)
      in if slug = ''core-stack-deployment-pipeline-legacy'' then True else False)"

section \<open>Fetching\<close>

text \<open>
  One page fetch (rate-limiter wait, HTTP request, status check, JSON decoding) either
  fails with a message or yields the decoded records: \<open>Inl\<close> is the error. What the
  upstream API answers is an input of the model: \<open>pages up pipeline createdFrom n\<close> is the
  outcome of fetching page \<open>n\<close>. The pages after the first are fetched by concurrent
  goroutines that send their outcome on one channel; the order in which the outcomes
  arrive is the other input, \<open>arrival up pipeline\<close>, a list of page numbers.
\<close>

type_synonym fetched = "string + BuildkiteBuild list"

record pageResult =
  page :: nat
  outcome :: fetched

record upstream =
  pages :: "string \<Rightarrow> int \<Rightarrow> nat \<Rightarrow> fetched"
  arrival :: "string \<Rightarrow> nat list"

text \<open>
  The collection loop over the channel: an error is logged and skipped, an empty page
  leaves the loop, any other page is stored under its page number.
\<close>

fun collect :: "pageResult list \<Rightarrow> (nat \<rightharpoonup> BuildkiteBuild list) \<Rightarrow> (nat \<rightharpoonup> BuildkiteBuild list)" where
  "collect [] allBuilds = allBuilds"
| "collect (res # rest) allBuilds =
     (case outcome res of
        Inl err \<Rightarrow> collect rest allBuilds
      | Inr bs \<Rightarrow>
          if length bs = 0 then allBuilds
          else collect rest (allBuilds(page res \<mapsto> bs)))"

definition combine :: "nat \<Rightarrow> (nat \<rightharpoonup> BuildkiteBuild list) \<Rightarrow> BuildkiteBuild list" where
  "combine totalPages allBuilds =
     concat (map (\<lambda>p. case allBuilds p of Some bs \<Rightarrow> bs | None \<Rightarrow> []) [1 ..< Suc totalPages])"

definition fetchBuildsFromPipeline :: "upstream \<Rightarrow> string \<Rightarrow> int \<Rightarrow> fetched" where
  "fetchBuildsFromPipeline up pipeline createdFrom =
     (case pages up pipeline createdFrom 1 of
        Inl err \<Rightarrow> Inl err
      | Inr firstPageBuilds \<Rightarrow>
          if length firstPageBuilds < buildkitePerPage then Inr firstPageBuilds
          else
            let totalPages = (if length firstPageBuilds < buildkitePerPage then 1
                              else buildkiteMaxPages);
                results = map (\<lambda>p. \<lparr>page = p, outcome = pages up pipeline createdFrom p\<rparr>)
                              (arrival up pipeline)
            in Inr (combine totalPages (collect results [1 \<mapsto> firstPageBuilds])))"

text \<open>
  Every goroutine for the pages 2 to \<open>buildkiteMaxPages\<close> sends exactly one result, so an
  arrival order is a permutation of these page numbers.
\<close>

definition arrivalOrder :: "nat list \<Rightarrow> bool" where
  "arrivalOrder ps = (distinct ps \<and> set ps = {2 ..< Suc buildkiteMaxPages})"

definition pipelines :: "string list" where
  "pipelines = [''core-stack-deployment-pipeline'', ''core-stack-deployment-pipeline-legacy'']"

text \<open>
  The loop over the configured pipelines: a failed pipeline is logged and skipped. The
  function returns its accumulated list with a nil error on every path.
\<close>

definition fetchBuildsParallel :: "upstream \<Rightarrow> int \<Rightarrow> fetched" where
  "fetchBuildsParallel up createdFrom =
     Inr (foldl (\<lambda>allBuilds pipeline.
                   case fetchBuildsFromPipeline up pipeline createdFrom of
                     Inl err \<Rightarrow> allBuilds
                   | Inr bs \<Rightarrow> allBuilds @ bs)
                [] pipelines)"

section \<open>The cache\<close>

record BuildKiteCacheData =
  Builds :: "BuildkiteBuild list"
  FetchedAt :: int

definition buildkiteCacheTTL :: int where
  "buildkiteCacheTTL = 5 * 60 * 1000000000"

text \<open>\<open>time.Since\<close> at clock reading \<open>now\<close>.\<close>

definition Since :: "int \<Rightarrow> int \<Rightarrow> int" where
  "Since now t = satDuration (now - t)"

text \<open>
  The process-wide cache variable is passed in and returned. \<open>now\<close> is the clock when the
  entry is checked, \<open>stored\<close> the clock when a fresh entry is written after the fetch.
\<close>

definition getCachedBuilds ::
  "BuildKiteCacheData option \<Rightarrow> int \<Rightarrow> int \<Rightarrow> upstream \<Rightarrow> int
     \<Rightarrow> fetched \<times> BuildKiteCacheData option" where
  "getCachedBuilds buildkiteCache now stored up createdFrom =
     (case (case buildkiteCache of
              Some e \<Rightarrow> if Since now (FetchedAt e) < buildkiteCacheTTL then Some (Builds e) else None
            | None \<Rightarrow> None) of
        Some bs \<Rightarrow> (Inr bs, buildkiteCache)
      | None \<Rightarrow>
          (case fetchBuildsParallel up createdFrom of
             Inl err \<Rightarrow> (Inl err, buildkiteCache)
           | Inr bs \<Rightarrow> (Inr bs, Some \<lparr>Builds = bs, FetchedAt = stored\<rparr>)))"

section \<open>Aggregation\<close>

text \<open>
  The handler keeps three Go maps per granularity. A Go map read of an absent key yields
  the zero value, which is \<open>Mapping.lookup_default\<close>; ranging over a map and sorting the keys
  yields the sorted list of its key set, which is \<open>Mapping.ordered_keys\<close>.
\<close>

record bucketAcc =
  durations :: "(string, rat list) mapping"
  passedBy :: "(string, nat) mapping"
  failedBy :: "(string, nat) mapping"
  deploymentCount :: nat
  passedCount :: nat
  failedCount :: nat

definition emptyAcc :: bucketAcc where
  "emptyAcc = \<lparr>durations = Mapping.empty, passedBy = Mapping.empty, failedBy = Mapping.empty,
               deploymentCount = 0, passedCount = 0, failedCount = 0\<rparr>"

definition appendAt :: "string \<Rightarrow> rat \<Rightarrow> (string, rat list) mapping \<Rightarrow> (string, rat list) mapping" where
  "appendAt k d m = Mapping.update k (Mapping.lookup_default [] m k @ [d]) m"

definition incrAt :: "string \<Rightarrow> (string, nat) mapping \<Rightarrow> (string, nat) mapping" where
  "incrAt k m = Mapping.update k (Mapping.lookup_default 0 m k + 1) m"

text \<open>
  The body that the loop of \<open>kpiBuildkiteCombinedAll\<close> runs for the weekly maps and, in the
  same words, for the daily maps: \<open>key\<close> is the week or the day of \<open>finishedAt\<close>.
\<close>

definition bucketStep :: "string \<Rightarrow> BuildkiteBuild \<Rightarrow> time \<Rightarrow> bucketAcc \<Rightarrow> bucketAcc" where
  "bucketStep key build finishedAt a =
     (let a1 = a\<lparr>deploymentCount := deploymentCount a + 1\<rparr>;
          a2 = (if State build = ''passed'' then
                  (let a' = (case parseTime (StartedAt build) of
                               Some startedAt \<Rightarrow>
                                 if After finishedAt startedAt
                                 then a1\<lparr>durations :=
                                        appendAt key (Minutes (Sub finishedAt startedAt)) (durations a1)\<rparr>
                                 else a1
                             | None \<Rightarrow> a1)
                   in a'\<lparr>passedBy := incrAt key (passedBy a'), passedCount := passedCount a' + 1\<rparr>)
                else a1)
      in if State build = ''failed''
         then a2\<lparr>failedBy := incrAt key (failedBy a2), failedCount := failedCount a2 + 1\<rparr>
         else a2)"

definition processBuild :: "int \<Rightarrow> bucketAcc \<times> bucketAcc \<Rightarrow> BuildkiteBuild \<Rightarrow> bucketAcc \<times> bucketAcc" where
  "processBuild thirtyDaysAgo acc build =
     (case acc of (weekly, daily) \<Rightarrow>
        if \<not> isDeploymentPipeline build then (weekly, daily)
        else case parseTime (FinishedAt build) of
               None \<Rightarrow> (weekly, daily)
             | Some finishedAt \<Rightarrow>
                 (let week = weekKey finishedAt;
                      day = dayKey finishedAt
                  in (bucketStep week build finishedAt weekly,
                      if thirtyDaysAgo < unixNano finishedAt
                      then bucketStep day build finishedAt daily
                      else daily)))"

definition processBuilds :: "int \<Rightarrow> BuildkiteBuild list \<Rightarrow> bucketAcc \<times> bucketAcc" where
  "processBuilds thirtyDaysAgo builds = foldl (processBuild thirtyDaysAgo) (emptyAcc, emptyAcc) builds"

record deploymentTime =
  dt_keys :: "string list" \<comment> \<open>the JSON field \<open>weeks\<close>, or \<open>days\<close>\<close>
  avg_duration_mins :: "rat list"

record failureRate =
  fr_keys :: "string list" \<comment> \<open>the JSON field \<open>weeks\<close>, or \<open>days\<close>\<close>
  failure_rate :: "rat list"
  passed :: "nat list"
  failed :: "nat list"

definition avgOf :: "rat list \<Rightarrow> rat" where
  "avgOf ds = (if 0 < length ds then sum_list ds / of_nat (length ds) else 0)"

definition rateOf :: "nat \<Rightarrow> nat \<Rightarrow> rat" where
  "rateOf p f = (let total = p + f in if 0 < total then of_nat f / of_nat total * 100 else 0)"

definition deploymentTimeOf :: "bucketAcc \<Rightarrow> deploymentTime" where
  "deploymentTimeOf a =
     (let ks = Mapping.ordered_keys (durations a)
      in \<lparr>dt_keys = ks,
          avg_duration_mins = map (\<lambda>w. avgOf (Mapping.lookup_default [] (durations a) w)) ks\<rparr>)"

definition failureRateOf :: "bucketAcc \<Rightarrow> failureRate" where
  "failureRateOf a =
     (let ks = sorted_list_of_set (Mapping.keys (passedBy a) \<union> Mapping.keys (failedBy a))
      in \<lparr>fr_keys = ks,
          failure_rate = map (\<lambda>w. rateOf (Mapping.lookup_default 0 (passedBy a) w)
                                           (Mapping.lookup_default 0 (failedBy a) w)) ks,
          passed = map (\<lambda>w. Mapping.lookup_default 0 (passedBy a) w) ks,
          failed = map (\<lambda>w. Mapping.lookup_default 0 (failedBy a) w) ks\<rparr>)"

section \<open>The handler\<close>

record metrics =
  deployment_time :: deploymentTime
  failure_rates :: failureRate

record payload =
  weekly :: metrics
  daily :: metrics
  total_builds :: nat
  weekly_deployments :: nat
  daily_deployments :: nat

datatype response =
    ServiceUnavailable "string list"
  | BadGateway string
  | StatusOK payload

definition isSpace :: "char \<Rightarrow> bool" where
  "isSpace c = (c \<in> set [CHR '' '', CHR 0x09, CHR 0x0A, CHR 0x0B, CHR 0x0C, CHR 0x0D])"

definition TrimSpace :: "string \<Rightarrow> string" where
  "TrimSpace s = rev (dropWhile isSpace (rev (dropWhile isSpace s)))"

definition buildkiteConfig :: "(string \<Rightarrow> string) \<Rightarrow> (string \<times> string) option" where
  "buildkiteConfig getenv =
     (let token = TrimSpace (getenv ''BUILDKITE_TOKEN'');
          org = TrimSpace (getenv ''BUILDKITE_ORG'')
      in if token = [] \<or> org = [] then None else Some (token, org))"

definition buildkiteConfigMissing :: "(string \<Rightarrow> string) \<Rightarrow> string list" where
  "buildkiteConfigMissing getenv =
     (if TrimSpace (getenv ''BUILDKITE_TOKEN'') = [] then [''BUILDKITE_TOKEN''] else [])
     @ (if TrimSpace (getenv ''BUILDKITE_ORG'') = [] then [''BUILDKITE_ORG''] else [])"

text \<open>
  \<open>AddDate\<close> on a clock reading: the month is normalised into the year, the day is left to
  run over into the following months, and the result is an instant. The server's zone is
  taken to keep one offset over the window.
\<close>

definition AddDate :: "time \<Rightarrow> int \<Rightarrow> int \<Rightarrow> int \<Rightarrow> int" where
  "AddDate t years months days =
     (let m = tMonth t + months - 1;
          y = tYear t + years + m div 12
      in unixNano (t\<lparr>tYear := y, tMonth := m mod 12 + 1, tDay := tDay t + days\<rparr>))"

definition metricsOf :: "bucketAcc \<Rightarrow> metrics" where
  "metricsOf a = \<lparr>deployment_time = deploymentTimeOf a, failure_rates = failureRateOf a\<rparr>"

definition aggregate :: "int \<Rightarrow> BuildkiteBuild list \<Rightarrow> payload" where
  "aggregate thirtyDaysAgo builds =
     (case processBuilds thirtyDaysAgo builds of (w, d) \<Rightarrow>
        \<lparr>weekly = metricsOf w, daily = metricsOf d, total_builds = length builds,
         weekly_deployments = deploymentCount w, daily_deployments = deploymentCount d\<rparr>)"

text \<open>
  \<open>now\<close> is the clock when the request arrives (the window bounds and the cache check
  read it), \<open>stored\<close> the clock after the fetch. The response fields \<open>date_range\<close>,
  \<open>fetch_duration_sec\<close>, \<open>cached\<close> and \<open>org\<close> are left out.
\<close>

definition kpiBuildkiteCombinedAll ::
  "(string \<Rightarrow> string) \<Rightarrow> BuildKiteCacheData option \<Rightarrow> time \<Rightarrow> time \<Rightarrow> upstream
     \<Rightarrow> response \<times> BuildKiteCacheData option" where
  "kpiBuildkiteCombinedAll getenv buildkiteCache now stored up =
     (case buildkiteConfig getenv of
        None \<Rightarrow> (ServiceUnavailable (buildkiteConfigMissing getenv), buildkiteCache)
      | Some (token, org) \<Rightarrow>
          (let threeMonthsAgo = AddDate now 0 (-3) 0;
               thirtyDaysAgo = AddDate now 0 0 (-30)
           in case getCachedBuilds buildkiteCache (unixNano now) (unixNano stored) up threeMonthsAgo of
                (Inl err, cache') \<Rightarrow> (BadGateway (''Failed to fetch builds: '' @ err), cache')
              | (Inr builds, cache') \<Rightarrow> (StatusOK (aggregate thirtyDaysAgo builds), cache')))"

section \<open>Concrete inputs\<close>

text \<open>A record of the tracked pipeline, a configured environment and an upstream that is down.\<close>

definition build0 :: BuildkiteBuild where
  "build0 = \<lparr>ID = ''b'', Number = 1, State = ''passed'', StartedAt = ''2024-01-01T10:00:00Z'',
     FinishedAt = ''2024-01-01T10:10:00Z'', CreatedAt = ''2024-01-01T09:59:00Z'',
     ScheduledAt = ''2024-01-01T09:59:00Z'',
     PipelineSlug = ''core-stack-deployment-pipeline-legacy'', PipelineName = ''Legacy'',
     Branch = ''main'', Commit = ''c0ffee'', Message = ''deploy''\<rparr>"

definition configured :: "string \<Rightarrow> string" where
  "configured v = (if v = ''BUILDKITE_TOKEN'' then ''token''
                   else if v = ''BUILDKITE_ORG'' then ''org'' else [])"

definition outage :: upstream where
  "outage = \<lparr>pages = (\<lambda>pipeline createdFrom n. Inl ''connection refused''),
             arrival = (\<lambda>pipeline. [2 ..< Suc buildkiteMaxPages])\<rparr>"

definition emptyMetrics :: metrics where
  "emptyMetrics = \<lparr>deployment_time = \<lparr>dt_keys = [], avg_duration_mins = []\<rparr>,
                   failure_rates = \<lparr>fr_keys = [], failure_rate = [], passed = [], failed = []\<rparr>\<rparr>"

definition emptyPayload :: payload where
  "emptyPayload = \<lparr>weekly = emptyMetrics, daily = emptyMetrics, total_builds = 0,
                   weekly_deployments = 0, daily_deployments = 0\<rparr>"

definition build1 :: BuildkiteBuild where
  "build1 = build0\<lparr>ID := ''c'', Number := 2\<rparr>"

text \<open>An upstream that answers page \<open>n\<close> with the \<open>n\<close>-th list and any further page with the
  empty list, and whose later pages arrive in the given order.\<close>

definition pagesOf :: "BuildkiteBuild list list \<Rightarrow> nat list \<Rightarrow> upstream" where
  "pagesOf ps order =
     \<lparr>pages = (\<lambda>pipeline createdFrom n.
                 if 1 \<le> n \<and> n \<le> length ps then Inr (ps ! (n - 1)) else Inr []),
      arrival = (\<lambda>pipeline. order)\<rparr>"

section \<open>The reductions, record by record\<close>

text \<open>
  The loop of the handler updates the weekly and the daily maps side by side. \<open>stepWith\<close>
  is what it does to the maps of one granularity: \<open>keyOf\<close> is \<open>weekKey\<close> or \<open>dayKey\<close>, and
  \<open>inWindow\<close> is the test on \<open>finishedAt\<close> that guards the daily block (no test for the
  weekly block). The other definitions say, for a list of records, which records fall
  into a bucket and what they contribute; the lemmas below prove that the loop computes
  exactly these.
\<close>

definition stepWith :: "(time \<Rightarrow> string) \<Rightarrow> (time \<Rightarrow> bool) \<Rightarrow> bucketAcc \<Rightarrow> BuildkiteBuild \<Rightarrow> bucketAcc" where
  "stepWith keyOf inWindow a build =
     (if \<not> isDeploymentPipeline build then a
      else case parseTime (FinishedAt build) of
             None \<Rightarrow> a
           | Some finishedAt \<Rightarrow>
               if inWindow finishedAt then bucketStep (keyOf finishedAt) build finishedAt a else a)"

definition bucketOf :: "(time \<Rightarrow> string) \<Rightarrow> (time \<Rightarrow> bool) \<Rightarrow> BuildkiteBuild \<Rightarrow> string option" where
  "bucketOf keyOf inWindow b =
     (if isDeploymentPipeline b
      then case parseTime (FinishedAt b) of
             Some f \<Rightarrow> if inWindow f then Some (keyOf f) else None
           | None \<Rightarrow> None
      else None)"

definition durationOf :: "BuildkiteBuild \<Rightarrow> rat option" where
  "durationOf b =
     (if State b = ''passed''
      then case parseTime (FinishedAt b) of
             Some f \<Rightarrow> (case parseTime (StartedAt b) of
                          Some s \<Rightarrow> if After f s then Some (Minutes (Sub f s)) else None
                        | None \<Rightarrow> None)
           | None \<Rightarrow> None
      else None)"

definition bucketDurations :: "(time \<Rightarrow> string) \<Rightarrow> (time \<Rightarrow> bool) \<Rightarrow> string \<Rightarrow> BuildkiteBuild list \<Rightarrow> rat list" where
  "bucketDurations keyOf inWindow k bs =
     List.map_filter durationOf (filter (\<lambda>b. bucketOf keyOf inWindow b = Some k) bs)"

definition bucketCount :: "string \<Rightarrow> (time \<Rightarrow> string) \<Rightarrow> (time \<Rightarrow> bool) \<Rightarrow> string \<Rightarrow> BuildkiteBuild list \<Rightarrow> nat" where
  "bucketCount st keyOf inWindow k bs =
     length (filter (\<lambda>b. bucketOf keyOf inWindow b = Some k \<and> State b = st) bs)"

definition durationKeys :: "(time \<Rightarrow> string) \<Rightarrow> (time \<Rightarrow> bool) \<Rightarrow> BuildkiteBuild list \<Rightarrow> string set" where
  "durationKeys keyOf inWindow bs =
     set (List.map_filter (\<lambda>b. if durationOf b \<noteq> None then bucketOf keyOf inWindow b else None) bs)"

definition stateKeys :: "string \<Rightarrow> (time \<Rightarrow> string) \<Rightarrow> (time \<Rightarrow> bool) \<Rightarrow> BuildkiteBuild list \<Rightarrow> string set" where
  "stateKeys st keyOf inWindow bs =
     set (List.map_filter (\<lambda>b. if State b = st then bucketOf keyOf inWindow b else None) bs)"

text \<open>Records with chosen state, timestamps and pipeline; the scenario of two weeks.\<close>

definition mkBuild :: "string \<Rightarrow> string \<Rightarrow> string \<Rightarrow> string \<Rightarrow> BuildkiteBuild" where
  "mkBuild slug st started finished = build0\<lparr>State := st, StartedAt := started,
     FinishedAt := finished, PipelineSlug := slug\<rparr>"

definition legacy :: string where
  "legacy = ''core-stack-deployment-pipeline-legacy''"

definition scenario :: "BuildkiteBuild list" where
  "scenario =
     [mkBuild legacy ''passed'' ''2024-01-01T10:00:00Z'' ''2024-01-01T10:10:00Z'',
      mkBuild legacy ''passed'' ''2024-01-01T10:00:00Z'' ''2024-01-01T10:20:00Z'',
      mkBuild legacy ''failed'' ''2024-01-08T10:00:00Z'' ''2024-01-08T10:10:00Z'']"

definition T0 :: time where
  "T0 = \<lparr>tYear = 2024, tMonth = 1, tDay = 1, tHour = 10, tMin = 0, tSec = 0, tNsec = 0, tOffset = 0\<rparr>"

text \<open>
  The specification's words about one week \<open>k\<close>: a record is \<open>eligible\<close> for the duration
  statistics of \<open>k\<close> when it is passed, both timestamps parse, \<open>finishedAt\<close> is strictly after
  \<open>startedAt\<close> and \<open>finishedAt\<close> falls in week \<open>k\<close>; \<open>elapsedMinutes\<close> is its duration and
  \<open>meanOver\<close> the arithmetic mean over the records selected.
\<close>

definition eligible :: "string \<Rightarrow> BuildkiteBuild \<Rightarrow> bool" where
  "eligible k b =
     (State b = ''passed''
      \<and> (case parseTime (FinishedAt b) of
            Some f \<Rightarrow> (case parseTime (StartedAt b) of
                         Some s \<Rightarrow> After f s \<and> weekKey f = k
                       | None \<Rightarrow> False)
          | None \<Rightarrow> False))"

definition elapsedMinutes :: "BuildkiteBuild \<Rightarrow> rat" where
  "elapsedMinutes b =
     (case parseTime (FinishedAt b) of
        Some f \<Rightarrow> (case parseTime (StartedAt b) of
                     Some s \<Rightarrow> Minutes (Sub f s)
                   | None \<Rightarrow> 0)
      | None \<Rightarrow> 0)"

definition meanOver :: "(BuildkiteBuild \<Rightarrow> bool) \<Rightarrow> BuildkiteBuild list \<Rightarrow> rat" where
  "meanOver P bs = sum_list (map elapsedMinutes (filter P bs)) / of_nat (length (filter P bs))"

definition finishedIn :: "string \<Rightarrow> BuildkiteBuild \<Rightarrow> bool" where
  "finishedIn k b = (case parseTime (FinishedAt b) of Some f \<Rightarrow> weekKey f = k | None \<Rightarrow> False)"

definition twoPipelines :: "BuildkiteBuild list" where
  "twoPipelines =
     [mkBuild ''core-stack-deployment-pipeline'' ''passed'' ''2024-01-01T10:00:00Z'' ''2024-01-01T10:10:00Z'',
      mkBuild legacy ''passed'' ''2024-01-01T10:00:00Z'' ''2024-01-01T10:20:00Z'']"

definition untracked :: "BuildkiteBuild list" where
  "untracked = [mkBuild ''core-stack-deployment-pipeline'' ''passed'' [] ''2024-01-01T10:10:00Z'']"

definition invalidDurations :: "BuildkiteBuild list" where
  "invalidDurations =
     [mkBuild legacy ''passed'' [] ''2024-01-01T10:10:00Z'',
      mkBuild legacy ''passed'' ''2024-01-01T10:10:00Z'' ''2024-01-01T10:10:00Z'']"

text \<open>
  The test that guards the daily block of the loop, on a record; the specification's words
  about one day \<open>k\<close> of the window that opens at \<open>t\<close>; an upstream that serves one short page
  for the tracked pipeline only; a clock reading of 2024-02-15, records of the tracked
  pipeline that finished 45 and 10 days before it, and two further records that finished
  10 days before it, a passed one of another pipeline and a canceled one.
\<close>

definition finishedAfter :: "int \<Rightarrow> BuildkiteBuild \<Rightarrow> bool" where
  "finishedAfter t b = (case parseTime (FinishedAt b) of Some f \<Rightarrow> t < unixNano f | None \<Rightarrow> False)"

definition finishedInDay :: "int \<Rightarrow> string \<Rightarrow> BuildkiteBuild \<Rightarrow> bool" where
  "finishedInDay t k b =
     (case parseTime (FinishedAt b) of
        Some f \<Rightarrow> t < unixNano f \<and> dayKey f = k
      | None \<Rightarrow> False)"

definition eligibleDay :: "int \<Rightarrow> string \<Rightarrow> BuildkiteBuild \<Rightarrow> bool" where
  "eligibleDay t k b =
     (State b = ''passed''
      \<and> (case parseTime (FinishedAt b) of
            Some f \<Rightarrow> (case parseTime (StartedAt b) of
                         Some s \<Rightarrow> After f s \<and> t < unixNano f \<and> dayKey f = k
                       | None \<Rightarrow> False)
          | None \<Rightarrow> False))"

definition legacyOnly :: "BuildkiteBuild list \<Rightarrow> upstream" where
  "legacyOnly bs =
     \<lparr>pages = (\<lambda>pipeline createdFrom n.
                 if pipeline = legacy \<and> n = 1 then Inr bs else Inl ''404 Not Found''),
      arrival = (\<lambda>pipeline. [2 ..< Suc buildkiteMaxPages])\<rparr>"

definition mid_february :: time where
  "mid_february = T0\<lparr>tMonth := 2, tDay := 15, tMin := 10\<rparr>"

definition old45 :: BuildkiteBuild where
  "old45 = mkBuild legacy ''passed'' ''2024-01-01T10:00:00Z'' ''2024-01-01T10:10:00Z''"

definition recent10 :: BuildkiteBuild where
  "recent10 = mkBuild legacy ''failed'' [] ''2024-02-05T10:10:00Z''"

definition otherRecent :: BuildkiteBuild where
  "otherRecent = mkBuild ''core-stack-deployment-pipeline'' ''passed''
                   ''2024-01-01T10:00:00Z'' ''2024-02-05T10:10:00Z''"

definition canceledRecent :: BuildkiteBuild where
  "canceledRecent = mkBuild legacy ''canceled'' ''2024-01-01T10:00:00Z'' ''2024-02-05T10:10:00Z''"

text \<open>
  For the order of the keys: the day of the year on which a month starts, the decimal
  numeral of a fixed width, and timestamps in two zones and in the years 999 and 1000.
\<close>

definition monthStart :: "int \<Rightarrow> int \<Rightarrow> int" where
  "monthStart y m = daysBefore (nat m - 1) + (if isLeap y \<and> 2 < m then 1 else 0)"

fun fixedWidth :: "nat \<Rightarrow> nat \<Rightarrow> string" where
  "fixedWidth 0 n = []"
| "fixedWidth (Suc w) n = fixedWidth w (n div 10) @ [digitChar (n mod 10)]"

definition monday_east :: time where
  "monday_east = \<lparr>tYear = 2024, tMonth = 1, tDay = 8, tHour = 1, tMin = 0, tSec = 0, tNsec = 0,
                  tOffset = 50400\<rparr>"

definition sunday_utc :: time where
  "sunday_utc = \<lparr>tYear = 2024, tMonth = 1, tDay = 7, tHour = 12, tMin = 0, tSec = 0, tNsec = 0,
                 tOffset = 0\<rparr>"

definition june_999 :: time where
  "june_999 = \<lparr>tYear = 999, tMonth = 6, tDay = 1, tHour = 0, tMin = 0, tSec = 0, tNsec = 0,
               tOffset = 0\<rparr>"

definition june_1000 :: time where
  "june_1000 = \<lparr>tYear = 1000, tMonth = 6, tDay = 1, tHour = 0, tMin = 0, tSec = 0, tNsec = 0,
                tOffset = 0\<rparr>"

text \<open>
  The loop body of the older handler \<open>kpiBuildkiteDeploymentTime\<close>, which keeps its own map
  of week durations: of the two timestamps it asks that both parse and that \<open>finishedAt\<close>
  is not before \<open>startedAt\<close>.
\<close>

definition deploymentTimeStep ::
  "(string, rat list) mapping \<Rightarrow> BuildkiteBuild \<Rightarrow> (string, rat list) mapping" where
  "deploymentTimeStep weekDurations build =
     (if State build \<noteq> ''passed'' then weekDurations
      else if \<not> isDeploymentPipeline build then weekDurations
      else case parseTime (StartedAt build) of
             None \<Rightarrow> weekDurations
           | Some startedAt \<Rightarrow>
               (case parseTime (FinishedAt build) of
                  None \<Rightarrow> weekDurations
                | Some finishedAt \<Rightarrow>
                    if Before finishedAt startedAt then weekDurations
                    else appendAt (weekKey finishedAt) (Minutes (Sub finishedAt startedAt))
                           weekDurations))"

section \<open>The cache and the fetch of all pipelines\<close>

lemma buildkiteConfig_configured: "buildkiteConfig configured = Some (''token'', ''org'')"
  by (simp add: buildkiteConfig_def configured_def TrimSpace_def isSpace_def)

lemma fetchBuildsParallel_all_fail:
  assumes "\<forall>p \<in> set pipelines. isl (fetchBuildsFromPipeline up p createdFrom)"
  shows "fetchBuildsParallel up createdFrom = Inr []"
proof -
  have "foldl (\<lambda>allBuilds pipeline.
                   case fetchBuildsFromPipeline up pipeline createdFrom of
                     Inl err \<Rightarrow> allBuilds
                   | Inr bs \<Rightarrow> allBuilds @ bs) acc ps = acc"
    if "\<forall>p \<in> set ps. isl (fetchBuildsFromPipeline up p createdFrom)" for ps acc
    using that by (induction ps arbitrary: acc) (auto simp: isl_def)
  with assms show ?thesis by (simp add: fetchBuildsParallel_def)
qed

lemma fetchBuildsFromPipeline_outage: "fetchBuildsFromPipeline outage p c = Inl ''connection refused''"
  by (simp add: fetchBuildsFromPipeline_def outage_def)

lemma getCachedBuilds_hit:
  assumes "Since now (FetchedAt e) < buildkiteCacheTTL"
  shows "getCachedBuilds (Some e) now stored up createdFrom = (Inr (Builds e), Some e)"
  using assms by (simp add: getCachedBuilds_def)

lemma getCachedBuilds_miss:
  assumes "buildkiteCache = None
         \<or> (\<exists>e. buildkiteCache = Some e \<and> \<not> Since now (FetchedAt e) < buildkiteCacheTTL)"
  shows "getCachedBuilds buildkiteCache now stored up createdFrom =
     (case fetchBuildsParallel up createdFrom of
        Inl err \<Rightarrow> (Inl err, buildkiteCache)
      | Inr bs \<Rightarrow> (Inr bs, Some \<lparr>Builds = bs, FetchedAt = stored\<rparr>))"
  using assms by (auto simp add: getCachedBuilds_def)

lemma aggregate_Nil: "aggregate t [] = emptyPayload"
  by (simp add: aggregate_def processBuilds_def emptyAcc_def metricsOf_def deploymentTimeOf_def
      failureRateOf_def emptyPayload_def emptyMetrics_def)

lemma kpiBuildkiteCombinedAll_configured:
  "kpiBuildkiteCombinedAll configured buildkiteCache now stored up =
     (case getCachedBuilds buildkiteCache (unixNano now) (unixNano stored) up (AddDate now 0 (-3) 0) of
        (Inl err, cache') \<Rightarrow> (BadGateway (''Failed to fetch builds: '' @ err), cache')
      | (Inr builds, cache') \<Rightarrow> (StatusOK (aggregate (AddDate now 0 0 (-30)) builds), cache'))"
  by (simp add: kpiBuildkiteCombinedAll_def buildkiteConfig_configured)

text \<open>
  C10. On a cache hit the records returned are those of the cache entry, whatever the
  caller's lower bound \<open>createdFrom\<close> is: two calls that both find the entry younger than
  the five-minute TTL return the same list (and leave the cache as it is), for any two
  lower bounds and whatever the upstream would have answered.
\<close>

theorem cache_hit_ignores_createdFrom:
  assumes "Since now1 (FetchedAt e) < buildkiteCacheTTL"
      and "Since now2 (FetchedAt e) < buildkiteCacheTTL"
  shows "getCachedBuilds (Some e) now1 stored1 up1 createdFrom1 = (Inr (Builds e), Some e)
       \<and> getCachedBuilds (Some e) now2 stored2 up2 createdFrom2
           = getCachedBuilds (Some e) now1 stored1 up1 createdFrom1"
  using assms by (simp add: getCachedBuilds_hit)

theorem cache_hit_ignores_createdFrom_witness:
  "Since 60000000000 (FetchedAt \<lparr>Builds = [build0], FetchedAt = 0\<rparr>) < buildkiteCacheTTL
   \<and> Since 120000000000 (FetchedAt \<lparr>Builds = [build0], FetchedAt = 0\<rparr>) < buildkiteCacheTTL
   \<and> getCachedBuilds (Some \<lparr>Builds = [build0], FetchedAt = 0\<rparr>) 60000000000 60000000001
        outage (-7776000000000000)
       = (Inr [build0], Some \<lparr>Builds = [build0], FetchedAt = 0\<rparr>)
   \<and> getCachedBuilds (Some \<lparr>Builds = [build0], FetchedAt = 0\<rparr>) 120000000000 120000000001
        (outage\<lparr>arrival := \<lambda>p. []\<rparr>) 0
       = getCachedBuilds (Some \<lparr>Builds = [build0], FetchedAt = 0\<rparr>) 60000000000 60000000001
        outage (-7776000000000000)"
proof -
  have h1: "Since 60000000000 (FetchedAt \<lparr>Builds = [build0], FetchedAt = 0\<rparr>) < buildkiteCacheTTL"
    by (simp add: Since_def satDuration_def maxDuration_def minDuration_def buildkiteCacheTTL_def)
  have h2: "Since 120000000000 (FetchedAt \<lparr>Builds = [build0], FetchedAt = 0\<rparr>) < buildkiteCacheTTL"
    by (simp add: Since_def satDuration_def maxDuration_def minDuration_def buildkiteCacheTTL_def)
  show ?thesis
    using h1 h2 cache_hit_ignores_createdFrom [OF h1 h2, of 60000000001 outage "-7776000000000000"
        120000000001 "outage\<lparr>arrival := \<lambda>p. []\<rparr>" 0]
    by simp
qed

text \<open>
  C9. When the fetch of every configured pipeline fails, \<open>fetchBuildsParallel\<close> returns the
  empty list and no error; on a cache miss \<open>getCachedBuilds\<close> then stores the empty list as
  a fresh entry stamped with the current clock; and every request that arrives while that
  entry is younger than five minutes gets the empty record set from the cache, whatever the
  upstream would answer by then, and leaves the entry in place.
\<close>

theorem all_pipelines_fail_empty_cached:
  assumes "\<forall>p \<in> set pipelines. isl (fetchBuildsFromPipeline up p createdFrom)"
      and "buildkiteCache = None
         \<or> (\<exists>e. buildkiteCache = Some e \<and> \<not> Since now (FetchedAt e) < buildkiteCacheTTL)"
  shows "fetchBuildsParallel up createdFrom = Inr []
       \<and> getCachedBuilds buildkiteCache now stored up createdFrom
           = (Inr [], Some \<lparr>Builds = [], FetchedAt = stored\<rparr>)
       \<and> (\<forall>now' stored' up' createdFrom'.
             Since now' stored < buildkiteCacheTTL \<longrightarrow>
             getCachedBuilds (Some \<lparr>Builds = [], FetchedAt = stored\<rparr>) now' stored' up' createdFrom'
               = (Inr [], Some \<lparr>Builds = [], FetchedAt = stored\<rparr>))
       \<and> (\<forall>now' stored' up'.
             Since (unixNano now') stored < buildkiteCacheTTL \<longrightarrow>
             kpiBuildkiteCombinedAll configured (Some \<lparr>Builds = [], FetchedAt = stored\<rparr>) now' stored' up'
               = (StatusOK emptyPayload, Some \<lparr>Builds = [], FetchedAt = stored\<rparr>))"
proof -
  have a: "fetchBuildsParallel up createdFrom = Inr []"
    using assms(1) by (rule fetchBuildsParallel_all_fail)
  have b: "getCachedBuilds buildkiteCache now stored up createdFrom
           = (Inr [], Some \<lparr>Builds = [], FetchedAt = stored\<rparr>)"
    using getCachedBuilds_miss [OF assms(2)] a by simp
  have c: "getCachedBuilds (Some \<lparr>Builds = [], FetchedAt = stored\<rparr>) now' stored' up' createdFrom'
               = (Inr [], Some \<lparr>Builds = [], FetchedAt = stored\<rparr>)"
    if "Since now' stored < buildkiteCacheTTL" for now' stored' up' createdFrom'
    using that getCachedBuilds_hit [of now' "\<lparr>Builds = [], FetchedAt = stored\<rparr>"] by simp
  have d: "kpiBuildkiteCombinedAll configured (Some \<lparr>Builds = [], FetchedAt = stored\<rparr>) now' stored' up'
               = (StatusOK emptyPayload, Some \<lparr>Builds = [], FetchedAt = stored\<rparr>)"
    if "Since (unixNano now') stored < buildkiteCacheTTL" for now' stored' up'
    using c [OF that] by (simp add: kpiBuildkiteCombinedAll_configured aggregate_Nil)
  from a b c d show ?thesis by blast
qed

theorem all_pipelines_fail_empty_cached_witness:
  "isl (fetchBuildsFromPipeline outage ''core-stack-deployment-pipeline'' 0)
   \<and> isl (fetchBuildsFromPipeline outage ''core-stack-deployment-pipeline-legacy'' 0)
   \<and> Since 200000000000 1000000000 < buildkiteCacheTTL
   \<and> getCachedBuilds None 0 1000000000 outage 0
       = (Inr [], Some \<lparr>Builds = [], FetchedAt = 1000000000\<rparr>)
   \<and> getCachedBuilds (Some \<lparr>Builds = [], FetchedAt = 1000000000\<rparr>) 200000000000 200000000001
        \<lparr>pages = (\<lambda>p c n. Inr [build0]), arrival = (\<lambda>p. [])\<rparr> 0
       = (Inr [], Some \<lparr>Builds = [], FetchedAt = 1000000000\<rparr>)"
proof -
  have h: "\<forall>p \<in> set pipelines. isl (fetchBuildsFromPipeline outage p 0)"
    by (simp add: fetchBuildsFromPipeline_outage)
  have fresh: "Since 200000000000 1000000000 < buildkiteCacheTTL"
    by (simp add: Since_def satDuration_def maxDuration_def minDuration_def buildkiteCacheTTL_def)
  show ?thesis
    using h fresh all_pipelines_fail_empty_cached [OF h, of None 0 1000000000]
    by (simp add: fetchBuildsFromPipeline_outage)
qed

text \<open>
  C2. The handler at a total outage: every page of every pipeline fails, nothing is
  cached yet, and the response is a success with empty series; the empty list is cached.
  No upstream whatsoever makes the configured handler answer with the gateway error.
\<close>

theorem total_outage_is_success:
  "kpiBuildkiteCombinedAll configured None now stored outage
     = (StatusOK emptyPayload, Some \<lparr>Builds = [], FetchedAt = unixNano stored\<rparr>)
   \<and> fst (kpiBuildkiteCombinedAll configured buildkiteCache now stored up) \<noteq> BadGateway msg"
proof -
  have "fetchBuildsParallel outage c = Inr []" for c
    by (rule fetchBuildsParallel_all_fail) (simp add: fetchBuildsFromPipeline_outage)
  then have a: "kpiBuildkiteCombinedAll configured None now stored outage
     = (StatusOK emptyPayload, Some \<lparr>Builds = [], FetchedAt = unixNano stored\<rparr>)"
    by (simp add: kpiBuildkiteCombinedAll_configured getCachedBuilds_def aggregate_Nil)
  have "\<exists>bs c. getCachedBuilds buildkiteCache n s up cf = (Inr bs, c)" for n s cf
    by (auto simp: getCachedBuilds_def fetchBuildsParallel_def split: option.splits)
  then have b: "fst (kpiBuildkiteCombinedAll configured buildkiteCache now stored up) \<noteq> BadGateway msg"
    by (metis (no_types, lifting) kpiBuildkiteCombinedAll_configured case_prod_conv fst_conv
        old.sum.simps(6) response.distinct(5))
  from a b show ?thesis by simp
qed

section \<open>Page collection\<close>

text \<open>
  C4. A non-empty page that arrives after an empty page is not in the merged output: the
  collection loop is left at the first empty page it receives and the results still to
  come are never read. First a history of 201 records (pages 2 and 3 are non-empty, page 4
  is the first empty one) where page 4 happens to arrive first: only page 1 is returned.
  Then an upstream whose page 2 is empty and whose page 3 is not: the later-numbered page
  3, arriving after the empty page 2, is dropped as well.
\<close>

theorem empty_page_discards_later_arrivals:
  "arrivalOrder [4, 2, 3, 5, 6, 7, 8, 9, 10]
   \<and> fetchBuildsFromPipeline
        (pagesOf [replicate 100 build0, replicate 100 build1, [build1]] [4, 2, 3, 5, 6, 7, 8, 9, 10])
        pipeline createdFrom
       = Inr (replicate 100 build0)
   \<and> arrivalOrder [2, 3, 4, 5, 6, 7, 8, 9, 10]
   \<and> fetchBuildsFromPipeline
        (pagesOf [replicate 100 build0, [], [build1]] [2, 3, 4, 5, 6, 7, 8, 9, 10])
        pipeline createdFrom
       = Inr (replicate 100 build0)"
proof -
  have "arrivalOrder [4, 2, 3, 5, 6, 7, 8, 9, 10]" "arrivalOrder [2, 3, 4, 5, 6, 7, 8, 9, 10]"
    by code_simp+
  moreover have "fetchBuildsFromPipeline
        (pagesOf [replicate 100 build0, replicate 100 build1, [build1]] [4, 2, 3, 5, 6, 7, 8, 9, 10])
        pipeline createdFrom = Inr (replicate 100 build0)"
    by (simp add: fetchBuildsFromPipeline_def pagesOf_def buildkitePerPage_def
        buildkiteMaxPages_def combine_def upt_rec)
  moreover have "fetchBuildsFromPipeline
        (pagesOf [replicate 100 build0, [], [build1]] [2, 3, 4, 5, 6, 7, 8, 9, 10])
        pipeline createdFrom = Inr (replicate 100 build0)"
    by (simp add: fetchBuildsFromPipeline_def pagesOf_def buildkitePerPage_def
        buildkiteMaxPages_def combine_def upt_rec)
  ultimately show ?thesis by simp
qed

text \<open>
  C5. The merged list depends on the arrival order. A history of 101 records (page 1
  full, page 2 with one record, every further page empty), fetched twice with the same
  page results: when page 2 arrives before the empty page 3 the result is page 1 followed
  by page 2, the concatenation in page order; when the empty page 3 arrives first, the
  result is page 1 alone.
\<close>

theorem merged_list_depends_on_arrival:
  "arrivalOrder [2, 3, 4, 5, 6, 7, 8, 9, 10] \<and> arrivalOrder [3, 2, 4, 5, 6, 7, 8, 9, 10]
   \<and> fetchBuildsFromPipeline
        (pagesOf [replicate 100 build0, [build1]] [2, 3, 4, 5, 6, 7, 8, 9, 10]) pipeline createdFrom
       = Inr (replicate 100 build0 @ [build1])
   \<and> fetchBuildsFromPipeline
        (pagesOf [replicate 100 build0, [build1]] [3, 2, 4, 5, 6, 7, 8, 9, 10]) pipeline createdFrom
       = Inr (replicate 100 build0)
   \<and> fetchBuildsFromPipeline
        (pagesOf [replicate 100 build0, [build1]] [3, 2, 4, 5, 6, 7, 8, 9, 10]) pipeline createdFrom
       \<noteq> fetchBuildsFromPipeline
        (pagesOf [replicate 100 build0, [build1]] [2, 3, 4, 5, 6, 7, 8, 9, 10]) pipeline createdFrom"
proof -
  have "arrivalOrder [2, 3, 4, 5, 6, 7, 8, 9, 10]" "arrivalOrder [3, 2, 4, 5, 6, 7, 8, 9, 10]"
    by code_simp+
  moreover have "fetchBuildsFromPipeline
        (pagesOf [replicate 100 build0, [build1]] [2, 3, 4, 5, 6, 7, 8, 9, 10]) pipeline createdFrom
       = Inr (replicate 100 build0 @ [build1])"
    by (simp add: fetchBuildsFromPipeline_def pagesOf_def buildkitePerPage_def
        buildkiteMaxPages_def combine_def upt_rec)
  moreover have "fetchBuildsFromPipeline
        (pagesOf [replicate 100 build0, [build1]] [3, 2, 4, 5, 6, 7, 8, 9, 10]) pipeline createdFrom
       = Inr (replicate 100 build0)"
    by (simp add: fetchBuildsFromPipeline_def pagesOf_def buildkitePerPage_def
        buildkiteMaxPages_def combine_def upt_rec)
  ultimately show ?thesis by simp
qed

section \<open>What the loop accumulates\<close>

lemma processBuilds_split_gen:
  "foldl (processBuild t) (w, d) bs
     = (foldl (stepWith weekKey (\<lambda>f. True)) w bs, foldl (stepWith dayKey (\<lambda>f. t < unixNano f)) d bs)"
  by (induction bs arbitrary: w d)
     (auto simp: processBuild_def stepWith_def Let_def split: option.splits)

lemma processBuilds_split:
  "processBuilds t bs
     = (foldl (stepWith weekKey (\<lambda>f. True)) emptyAcc bs,
        foldl (stepWith dayKey (\<lambda>f. t < unixNano f)) emptyAcc bs)"
  by (simp add: processBuilds_def processBuilds_split_gen)

lemma durations_bucketStep:
  "durations (bucketStep key b f a)
     = (if State b = ''passed''
        then case parseTime (StartedAt b) of
               Some s \<Rightarrow> if After f s then appendAt key (Minutes (Sub f s)) (durations a) else durations a
             | None \<Rightarrow> durations a
        else durations a)"
  by (simp add: bucketStep_def Let_def split: option.splits)

lemma passedBy_bucketStep:
  "passedBy (bucketStep key b f a) = (if State b = ''passed'' then incrAt key (passedBy a) else passedBy a)"
  by (simp add: bucketStep_def Let_def split: option.splits)

lemma failedBy_bucketStep:
  "failedBy (bucketStep key b f a) = (if State b = ''failed'' then incrAt key (failedBy a) else failedBy a)"
  by (simp add: bucketStep_def Let_def split: option.splits)

lemma deploymentCount_bucketStep:
  "deploymentCount (bucketStep key b f a) = deploymentCount a + 1"
  by (simp add: bucketStep_def Let_def split: option.splits)

lemma durations_stepWith:
  "durations (stepWith keyOf inWindow a b)
     = (case bucketOf keyOf inWindow b of
          Some k \<Rightarrow> (case durationOf b of Some d \<Rightarrow> appendAt k d (durations a) | None \<Rightarrow> durations a)
        | None \<Rightarrow> durations a)"
  by (simp add: stepWith_def bucketOf_def durationOf_def durations_bucketStep split: option.splits)

lemma passedBy_stepWith:
  "passedBy (stepWith keyOf inWindow a b)
     = (case bucketOf keyOf inWindow b of
          Some k \<Rightarrow> if State b = ''passed'' then incrAt k (passedBy a) else passedBy a
        | None \<Rightarrow> passedBy a)"
  by (simp add: stepWith_def bucketOf_def passedBy_bucketStep split: option.splits)

lemma failedBy_stepWith:
  "failedBy (stepWith keyOf inWindow a b)
     = (case bucketOf keyOf inWindow b of
          Some k \<Rightarrow> if State b = ''failed'' then incrAt k (failedBy a) else failedBy a
        | None \<Rightarrow> failedBy a)"
  by (simp add: stepWith_def bucketOf_def failedBy_bucketStep split: option.splits)

lemma deploymentCount_stepWith:
  "deploymentCount (stepWith keyOf inWindow a b)
     = deploymentCount a + (if bucketOf keyOf inWindow b = None then 0 else 1)"
  by (simp add: stepWith_def bucketOf_def deploymentCount_bucketStep split: option.splits)

lemma map_filter_append: "List.map_filter f (xs @ ys) = List.map_filter f xs @ List.map_filter f ys"
  by (simp add: List.map_filter_def)

lemma lookup_durations_fold:
  "Mapping.lookup_default [] (durations (foldl (stepWith keyOf inWindow) emptyAcc bs)) k
     = bucketDurations keyOf inWindow k bs"
proof (induction bs rule: rev_induct)
  case Nil
  show ?case by (simp add: emptyAcc_def bucketDurations_def List.map_filter_def lookup_default_empty)
next
  case (snoc b bs)
  then show ?case
    by (auto simp: durations_stepWith bucketDurations_def map_filter_append appendAt_def
        lookup_default_update' List.map_filter_def split: option.splits)
qed

lemma keys_durations_fold:
  "Mapping.keys (durations (foldl (stepWith keyOf inWindow) emptyAcc bs)) = durationKeys keyOf inWindow bs"
proof (induction bs rule: rev_induct)
  case Nil
  show ?case by (simp add: emptyAcc_def durationKeys_def List.map_filter_def)
next
  case (snoc b bs)
  then show ?case
    by (auto simp: durations_stepWith durationKeys_def map_filter_append appendAt_def
        List.map_filter_def split: option.splits)
qed

lemma lookup_passedBy_fold:
  "Mapping.lookup_default 0 (passedBy (foldl (stepWith keyOf inWindow) emptyAcc bs)) k
     = bucketCount ''passed'' keyOf inWindow k bs"
proof (induction bs rule: rev_induct)
  case Nil
  show ?case by (simp add: emptyAcc_def bucketCount_def lookup_default_empty)
next
  case (snoc b bs)
  then show ?case
    by (auto simp: passedBy_stepWith bucketCount_def incrAt_def lookup_default_update'
        split: option.splits)
qed

lemma keys_passedBy_fold:
  "Mapping.keys (passedBy (foldl (stepWith keyOf inWindow) emptyAcc bs)) = stateKeys ''passed'' keyOf inWindow bs"
proof (induction bs rule: rev_induct)
  case Nil
  show ?case by (simp add: emptyAcc_def stateKeys_def List.map_filter_def)
next
  case (snoc b bs)
  then show ?case
    by (auto simp: passedBy_stepWith stateKeys_def map_filter_append incrAt_def
        List.map_filter_def split: option.splits)
qed

lemma lookup_failedBy_fold:
  "Mapping.lookup_default 0 (failedBy (foldl (stepWith keyOf inWindow) emptyAcc bs)) k
     = bucketCount ''failed'' keyOf inWindow k bs"
proof (induction bs rule: rev_induct)
  case Nil
  show ?case by (simp add: emptyAcc_def bucketCount_def lookup_default_empty)
next
  case (snoc b bs)
  then show ?case
    by (auto simp: failedBy_stepWith bucketCount_def incrAt_def lookup_default_update'
        split: option.splits)
qed

lemma keys_failedBy_fold:
  "Mapping.keys (failedBy (foldl (stepWith keyOf inWindow) emptyAcc bs)) = stateKeys ''failed'' keyOf inWindow bs"
proof (induction bs rule: rev_induct)
  case Nil
  show ?case by (simp add: emptyAcc_def stateKeys_def List.map_filter_def)
next
  case (snoc b bs)
  then show ?case
    by (auto simp: failedBy_stepWith stateKeys_def map_filter_append incrAt_def
        List.map_filter_def split: option.splits)
qed

lemma deploymentCount_fold:
  "deploymentCount (foldl (stepWith keyOf inWindow) emptyAcc bs)
     = length (filter (\<lambda>b. bucketOf keyOf inWindow b \<noteq> None) bs)"
proof (induction bs rule: rev_induct)
  case Nil
  show ?case by (simp add: emptyAcc_def)
next
  case (snoc b bs)
  then show ?case by (simp add: deploymentCount_stepWith)
qed

section \<open>Evaluating the concrete inputs\<close>

lemma digits_numeral:
  "digits (numeral n) = (if (numeral n::nat) < 10 then [digitChar (numeral n)]
                         else digits (numeral n div 10) @ [digitChar (numeral n mod 10)])"
  by (subst digits.simps) simp

lemma digits_small: "digits 0 = ''0''" "digits (Suc 0) = ''1''"
  by (simp_all add: digits.simps digitChar_def)

lemmas key_eval = weekKey_def ISOWeek_def yearDay_def absDays_def daysBeforeYear_def
  daysBefore_def isLeap_def yearLen_def fmtInt_def dayKey_def appendInt_def digits_numeral
  digits_small digitChar_def Let_def

lemmas parse_eval = parseTime_def parseRFC3339_def parseMillisTZ_def parseDateClock_def atoi_def
  isDigit_def digitVal_def mkTime_def parseNumTZ_def daysIn_def daysBefore_def isLeap_def
  parseNanoseconds_def Let_def less_eq_char_def

lemmas instant_eval = unixNano_def unixSec_def absDays_def
  yearDay_def daysBeforeYear_def daysBefore_def isLeap_def

lemma parse_T0: "parseTime ''2024-01-01T10:00:00Z'' = Some T0"
  by (simp add: parse_eval T0_def)
lemma parse_T10: "parseTime ''2024-01-01T10:10:00Z'' = Some (T0\<lparr>tMin := 10\<rparr>)"
  by (simp add: parse_eval T0_def)
lemma parse_T20: "parseTime ''2024-01-01T10:20:00Z'' = Some (T0\<lparr>tMin := 20\<rparr>)"
  by (simp add: parse_eval T0_def)
lemma parse_W2: "parseTime ''2024-01-08T10:00:00Z'' = Some (T0\<lparr>tDay := 8\<rparr>)"
  by (simp add: parse_eval T0_def)
lemma parse_W2': "parseTime ''2024-01-08T10:10:00Z'' = Some (T0\<lparr>tDay := 8, tMin := 10\<rparr>)"
  by (simp add: parse_eval T0_def)
lemma parse_empty: "parseTime [] = None"
  by (simp add: parseTime_def)

lemma unixNano_T0: "unixNano (T0\<lparr>tDay := d, tMin := m\<rparr>) = 1704103200000000000 + (d - 1) * 86400000000000 + m * 60000000000"
   "unixNano (T0\<lparr>tMin := m\<rparr>) = 1704103200000000000 + m * 60000000000"
   "unixNano (T0\<lparr>tDay := d\<rparr>) = 1704103200000000000 + (d - 1) * 86400000000000"
   "unixNano T0 = 1704103200000000000"
  by (simp_all add: instant_eval T0_def)

lemma weekKey_T0: "weekKey T0 = ''2024-W01''" "weekKey (T0\<lparr>tMin := m\<rparr>) = ''2024-W01''"
   "weekKey (T0\<lparr>tDay := 8\<rparr>) = ''2024-W02''" "weekKey (T0\<lparr>tDay := 8, tMin := m\<rparr>) = ''2024-W02''"
  by (simp_all add: key_eval T0_def)

lemma dayKey_T0: "dayKey T0 = ''2024-01-01''" "dayKey (T0\<lparr>tMin := m\<rparr>) = ''2024-01-01''"
   "dayKey (T0\<lparr>tDay := 8\<rparr>) = ''2024-01-08''" "dayKey (T0\<lparr>tDay := 8, tMin := m\<rparr>) = ''2024-01-08''"
  by (simp_all add: key_eval T0_def)

lemmas parsed = parse_T0 parse_T10 parse_T20 parse_W2 parse_W2' parse_empty

lemma isDeploymentPipeline_mkBuild:
  "isDeploymentPipeline (mkBuild legacy st s f)"
  "\<not> isDeploymentPipeline (mkBuild ''core-stack-deployment-pipeline'' st s f)"
  by (simp_all add: mkBuild_def legacy_def isDeploymentPipeline_def ToLower_def toLowerChar_def
      less_eq_char_def)

lemma fields_mkBuild:
  "State (mkBuild slug st s f) = st" "StartedAt (mkBuild slug st s f) = s"
  "FinishedAt (mkBuild slug st s f) = f"
  by (simp_all add: mkBuild_def)

lemma Minutes_Sub_T0:
  "Minutes (Sub (T0\<lparr>tMin := 10\<rparr>) T0) = 10" "Minutes (Sub (T0\<lparr>tMin := 20\<rparr>) T0) = 20"
  by (simp_all add: Minutes_def Sub_def satDuration_def maxDuration_def minDuration_def unixNano_T0)

lemma After_T0:
  "After (T0\<lparr>tMin := 10\<rparr>) T0" "After (T0\<lparr>tMin := 20\<rparr>) T0"
  by (simp_all add: After_def unixNano_T0)

lemmas build_eval = bucketOf_def durationOf_def isDeploymentPipeline_mkBuild fields_mkBuild parsed
  weekKey_T0 dayKey_T0 Minutes_Sub_T0 After_T0

section \<open>The emitted series\<close>

lemma weekly_aggregate:
  "weekly (aggregate t builds) = metricsOf (foldl (stepWith weekKey (\<lambda>f. True)) emptyAcc builds)"
  by (simp add: aggregate_def processBuilds_split)

lemma daily_aggregate:
  "daily (aggregate t builds) = metricsOf (foldl (stepWith dayKey (\<lambda>f. t < unixNano f)) emptyAcc builds)"
  by (simp add: aggregate_def processBuilds_split)

lemma finite_durationKeys: "finite (durationKeys keyOf inWindow bs)"
  by (simp add: durationKeys_def)

lemma finite_stateKeys: "finite (stateKeys st keyOf inWindow bs)"
  by (simp add: stateKeys_def)

lemma durationKeys_nonempty:
  "k \<in> durationKeys keyOf inWindow bs \<longleftrightarrow> bucketDurations keyOf inWindow k bs \<noteq> []"
  by (induction bs) (auto simp: durationKeys_def bucketDurations_def List.map_filter_def split: if_splits)

lemma stateKeys_positive:
  "k \<in> stateKeys st keyOf inWindow bs \<longleftrightarrow> 0 < bucketCount st keyOf inWindow k bs"
  by (induction bs) (auto simp: stateKeys_def bucketCount_def List.map_filter_def split: if_splits)

lemma deploymentTimeOf_fold:
  "deploymentTimeOf (foldl (stepWith keyOf inWindow) emptyAcc bs)
     = \<lparr>dt_keys = sorted_list_of_set (durationKeys keyOf inWindow bs),
        avg_duration_mins = map (\<lambda>k. avgOf (bucketDurations keyOf inWindow k bs))
                                (sorted_list_of_set (durationKeys keyOf inWindow bs))\<rparr>"
  by (simp add: deploymentTimeOf_def Mapping.ordered_keys_def keys_durations_fold
      finite_durationKeys lookup_durations_fold Let_def)

lemma failureRateOf_fold:
  "failureRateOf (foldl (stepWith keyOf inWindow) emptyAcc bs)
     = (let ks = sorted_list_of_set (stateKeys ''passed'' keyOf inWindow bs
                                     \<union> stateKeys ''failed'' keyOf inWindow bs)
        in \<lparr>fr_keys = ks,
            failure_rate = map (\<lambda>k. rateOf (bucketCount ''passed'' keyOf inWindow k bs)
                                            (bucketCount ''failed'' keyOf inWindow k bs)) ks,
            passed = map (\<lambda>k. bucketCount ''passed'' keyOf inWindow k bs) ks,
            failed = map (\<lambda>k. bucketCount ''failed'' keyOf inWindow k bs) ks\<rparr>)"
  by (simp add: failureRateOf_def keys_passedBy_fold keys_failedBy_fold lookup_passedBy_fold
      lookup_failedBy_fold Let_def)

lemma scenario_weekly:
  "weekly (aggregate 0 scenario)
     = \<lparr>deployment_time = \<lparr>dt_keys = [''2024-W01''], avg_duration_mins = [15]\<rparr>,
        failure_rates = \<lparr>fr_keys = [''2024-W01'', ''2024-W02''], failure_rate = [0, 100],
                         passed = [2, 0], failed = [0, 1]\<rparr>\<rparr>"
proof -
  have dk: "durationKeys weekKey (\<lambda>f. True) scenario = set [''2024-W01'']"
    by (simp add: durationKeys_def scenario_def List.map_filter_def build_eval)
  have pk: "stateKeys ''passed'' weekKey (\<lambda>f. True) scenario = set [''2024-W01'']"
    by (simp add: stateKeys_def scenario_def List.map_filter_def build_eval)
  have fk: "stateKeys ''failed'' weekKey (\<lambda>f. True) scenario = set [''2024-W02'']"
    by (simp add: stateKeys_def scenario_def List.map_filter_def build_eval)
  have d: "bucketDurations weekKey (\<lambda>f. True) ''2024-W01'' scenario = [10, 20]"
    by (simp add: bucketDurations_def scenario_def List.map_filter_def build_eval)
  have c: "bucketCount ''passed'' weekKey (\<lambda>f. True) ''2024-W01'' scenario = 2"
     "bucketCount ''passed'' weekKey (\<lambda>f. True) ''2024-W02'' scenario = 0"
     "bucketCount ''failed'' weekKey (\<lambda>f. True) ''2024-W01'' scenario = 0"
     "bucketCount ''failed'' weekKey (\<lambda>f. True) ''2024-W02'' scenario = 1"
    by (simp_all add: bucketCount_def scenario_def build_eval)
  have k1: "sorted_list_of_set (set [''2024-W01'']) = [''2024-W01'']"
    by (subst sorted_list_of_set_sort_remdups) simp
  have k2: "sorted_list_of_set (set [''2024-W01''] \<union> set [''2024-W02'']) = [''2024-W01'', ''2024-W02'']"
    by (subst set_append [symmetric], subst sorted_list_of_set_sort_remdups) simp
  show ?thesis
    by (simp only: weekly_aggregate metricsOf_def deploymentTimeOf_fold failureRateOf_fold
        dk pk fk k1 k2 Let_def) (simp add: d c avgOf_def rateOf_def)
qed

lemma avgOf_nonempty: "ds \<noteq> [] \<Longrightarrow> avgOf ds = sum_list ds / of_nat (length ds)"
  by (simp add: avgOf_def)

lemma rateOf_positive: "0 < p + f \<Longrightarrow> rateOf p f = of_nat f / of_nat (p + f) * 100"
  by (simp add: rateOf_def Let_def)

text \<open>
  The series of one granularity in terms of the records: \<open>E k\<close> are the records whose
  durations the loop has collected under key \<open>k\<close>, \<open>P k\<close> and \<open>F k\<close> the passed and failed
  counts it has kept for \<open>k\<close>.
\<close>

lemma series_of_fold:
  fixes E :: "string \<Rightarrow> BuildkiteBuild list" and P F :: "string \<Rightarrow> nat"
  assumes d: "\<And>k. bucketDurations keyOf inWindow k bs = map elapsedMinutes (E k)"
      and p: "\<And>k. bucketCount ''passed'' keyOf inWindow k bs = P k"
      and f: "\<And>k. bucketCount ''failed'' keyOf inWindow k bs = F k"
  defines "m \<equiv> metricsOf (foldl (stepWith keyOf inWindow) emptyAcc bs)"
  shows "dt_keys (deployment_time m) = sorted_list_of_set {k. E k \<noteq> []}"
    and "finite {k. E k \<noteq> []}"
    and "avg_duration_mins (deployment_time m)
           = map (\<lambda>k. sum_list (map elapsedMinutes (E k)) / of_nat (length (E k)))
                 (dt_keys (deployment_time m))"
    and "fr_keys (failure_rates m) = sorted_list_of_set {k. 0 < P k + F k}"
    and "finite {k. 0 < P k + F k}"
    and "failure_rate (failure_rates m)
           = map (\<lambda>k. of_nat (F k) / of_nat (P k + F k) * 100) (fr_keys (failure_rates m))"
    and "passed (failure_rates m) = map P (fr_keys (failure_rates m))"
    and "failed (failure_rates m) = map F (fr_keys (failure_rates m))"
    and "set (dt_keys (deployment_time m)) \<subseteq> set (fr_keys (failure_rates m))"
    and "set (dt_keys (deployment_time m)) = {k. E k \<noteq> []}"
    and "set (fr_keys (failure_rates m)) = {k. 0 < P k + F k}"
proof -
  let ?dk = "durationKeys keyOf inWindow bs"
  let ?sk = "stateKeys ''passed'' keyOf inWindow bs \<union> stateKeys ''failed'' keyOf inWindow bs"
  have dk: "?dk = {k. E k \<noteq> []}"
    by (auto simp: durationKeys_nonempty d)
  have sk: "?sk = {k. 0 < P k + F k}"
    by (auto simp: stateKeys_positive p f)
  have fd: "finite ?dk" by (rule finite_durationKeys)
  have fs: "finite ?sk" by (simp add: finite_stateKeys)
  show fin1: "finite {k. E k \<noteq> []}" using fd by (simp only: dk)
  show fin2: "finite {k. 0 < P k + F k}" using fs by (simp only: sk)
  have dt: "deployment_time m = \<lparr>dt_keys = sorted_list_of_set {k. E k \<noteq> []},
        avg_duration_mins = map (\<lambda>k. avgOf (map elapsedMinutes (E k)))
                                (sorted_list_of_set {k. E k \<noteq> []})\<rparr>"
    by (simp add: m_def metricsOf_def deploymentTimeOf_fold dk d)
  have fr: "failure_rates m = \<lparr>fr_keys = sorted_list_of_set {k. 0 < P k + F k},
        failure_rate = map (\<lambda>k. rateOf (P k) (F k)) (sorted_list_of_set {k. 0 < P k + F k}),
        passed = map P (sorted_list_of_set {k. 0 < P k + F k}),
        failed = map F (sorted_list_of_set {k. 0 < P k + F k})\<rparr>"
    by (simp add: m_def metricsOf_def failureRateOf_fold sk p f Let_def)
  show "dt_keys (deployment_time m) = sorted_list_of_set {k. E k \<noteq> []}"
    by (simp add: dt)
  show "fr_keys (failure_rates m) = sorted_list_of_set {k. 0 < P k + F k}"
    by (simp add: fr)
  show "passed (failure_rates m) = map P (fr_keys (failure_rates m))"
    by (simp add: fr)
  show "failed (failure_rates m) = map F (fr_keys (failure_rates m))"
    by (simp add: fr)
  have "map (\<lambda>k. avgOf (map elapsedMinutes (E k))) (sorted_list_of_set {k. E k \<noteq> []})
      = map (\<lambda>k. sum_list (map elapsedMinutes (E k)) / of_nat (length (E k)))
            (sorted_list_of_set {k. E k \<noteq> []})"
  proof (rule map_cong)
    fix k assume "k \<in> set (sorted_list_of_set {k. E k \<noteq> []})"
    then have "E k \<noteq> []" using fin1 by simp
    then show "avgOf (map elapsedMinutes (E k))
        = sum_list (map elapsedMinutes (E k)) / of_nat (length (E k))"
      by (simp add: avgOf_nonempty)
  qed simp
  then show "avg_duration_mins (deployment_time m)
           = map (\<lambda>k. sum_list (map elapsedMinutes (E k)) / of_nat (length (E k)))
                 (dt_keys (deployment_time m))"
    by (simp add: dt)
  have "map (\<lambda>k. rateOf (P k) (F k)) (sorted_list_of_set {k. 0 < P k + F k})
      = map (\<lambda>k. of_nat (F k) / of_nat (P k + F k) * 100) (sorted_list_of_set {k. 0 < P k + F k})"
  proof (rule map_cong)
    fix k assume "k \<in> set (sorted_list_of_set {k. 0 < P k + F k})"
    then have "0 < P k + F k" using fin2 by simp
    then show "rateOf (P k) (F k) = of_nat (F k) / of_nat (P k + F k) * 100"
      by (rule rateOf_positive)
  qed simp
  then show "failure_rate (failure_rates m)
           = map (\<lambda>k. of_nat (F k) / of_nat (P k + F k) * 100) (fr_keys (failure_rates m))"
    by (simp add: fr)
  have "?dk \<subseteq> ?sk"
    by (auto simp: durationKeys_def stateKeys_def List.map_filter_def durationOf_def
        split: if_splits)
  then have sub: "{k. E k \<noteq> []} \<subseteq> {k. 0 < P k + F k}"
    by (simp only: dk sk)
  show s1: "set (dt_keys (deployment_time m)) = {k. E k \<noteq> []}"
    by (simp only: dt deploymentTime.simps set_sorted_list_of_set [OF fin1])
  show s2: "set (fr_keys (failure_rates m)) = {k. 0 < P k + F k}"
    by (simp only: fr failureRate.simps set_sorted_list_of_set [OF fin2])
  show "set (dt_keys (deployment_time m)) \<subseteq> set (fr_keys (failure_rates m))"
    using sub by (simp only: s1 s2)
qed

section \<open>Which records enter the duration statistics and the counts\<close>

lemma bucketDurations_week:
  "bucketDurations weekKey (\<lambda>f. True) k bs
     = map elapsedMinutes (filter (\<lambda>b. isDeploymentPipeline b \<and> eligible k b) bs)"
  by (induction bs)
     (auto simp: bucketDurations_def List.map_filter_def bucketOf_def durationOf_def
        eligible_def elapsedMinutes_def split: option.splits)

lemma bucketCount_week:
  "bucketCount st weekKey (\<lambda>f. True) k bs
     = length (filter (\<lambda>b. isDeploymentPipeline b \<and> State b = st \<and> finishedIn k b) bs)"
  by (induction bs)
     (auto simp: bucketCount_def bucketOf_def finishedIn_def split: option.splits)

lemma eligible_iff:
  "eligible k b \<longleftrightarrow>
     State b = ''passed''
     \<and> (\<exists>s f. parseTime (StartedAt b) = Some s \<and> parseTime (FinishedAt b) = Some f
              \<and> unixNano s < unixNano f \<and> weekKey f = k)"
  by (auto simp: eligible_def After_def split: option.splits)

lemma elapsedMinutes_exact:
  assumes "parseTime (StartedAt b) = Some s" "parseTime (FinishedAt b) = Some f"
      and "unixNano s < unixNano f" "unixNano f - unixNano s \<le> maxDuration"
  shows "elapsedMinutes b = of_int (unixNano f - unixNano s) / 60000000000"
  using assms
  by (simp add: elapsedMinutes_def Minutes_def Sub_def satDuration_def minDuration_def)

lemma deployment_time_weekly:
  "deployment_time (weekly (aggregate t builds))
     = \<lparr>dt_keys = sorted_list_of_set (durationKeys weekKey (\<lambda>f. True) builds),
        avg_duration_mins = map (\<lambda>k. avgOf (bucketDurations weekKey (\<lambda>f. True) k builds))
                                (sorted_list_of_set (durationKeys weekKey (\<lambda>f. True) builds))\<rparr>"
  by (simp add: weekly_aggregate metricsOf_def deploymentTimeOf_fold)

lemma failure_rates_weekly:
  "failure_rates (weekly (aggregate t builds))
     = (let ks = sorted_list_of_set (stateKeys ''passed'' weekKey (\<lambda>f. True) builds
                                     \<union> stateKeys ''failed'' weekKey (\<lambda>f. True) builds)
        in \<lparr>fr_keys = ks,
            failure_rate = map (\<lambda>k. rateOf (bucketCount ''passed'' weekKey (\<lambda>f. True) k builds)
                                            (bucketCount ''failed'' weekKey (\<lambda>f. True) k builds)) ks,
            passed = map (\<lambda>k. bucketCount ''passed'' weekKey (\<lambda>f. True) k builds) ks,
            failed = map (\<lambda>k. bucketCount ''failed'' weekKey (\<lambda>f. True) k builds) ks\<rparr>)"
  by (simp add: weekly_aggregate metricsOf_def failureRateOf_fold)

text \<open>
  C3, as the code has it. For every week key emitted in the duration series, the value at
  that key is the arithmetic mean of the durations over exactly the records of the tracked
  pipeline (\<open>isDeploymentPipeline\<close>: the slug is core-stack-deployment-pipeline-legacy, in any
  letter case) that are passed, have parseable \<open>startedAt\<close> and \<open>finishedAt\<close> with
  \<open>finishedAt\<close> strictly after \<open>startedAt\<close>, and whose \<open>finishedAt\<close> has that week key; there
  is at least one such record. The duration is \<open>Sub\<close> in minutes, which is the difference of
  the two instants whenever it fits a \<open>Duration\<close> (\<open>elapsedMinutes_exact\<close>).
\<close>

theorem avg_is_mean_over_tracked_eligible:
  assumes "i < length (dt_keys (deployment_time (weekly (aggregate t builds))))"
  shows "filter (\<lambda>b. isDeploymentPipeline b
                     \<and> eligible (dt_keys (deployment_time (weekly (aggregate t builds))) ! i) b) builds \<noteq> []
       \<and> avg_duration_mins (deployment_time (weekly (aggregate t builds))) ! i
           = meanOver (\<lambda>b. isDeploymentPipeline b
                     \<and> eligible (dt_keys (deployment_time (weekly (aggregate t builds))) ! i) b) builds"
proof -
  let ?dk = "durationKeys weekKey (\<lambda>f. True) builds"
  let ?k = "sorted_list_of_set ?dk ! i"
  have i: "i < length (sorted_list_of_set ?dk)"
    using assms by (simp add: deployment_time_weekly)
  then have "?k \<in> set (sorted_list_of_set ?dk)" by (rule nth_mem)
  then have "?k \<in> ?dk" by (simp add: finite_durationKeys)
  then have ne: "bucketDurations weekKey (\<lambda>f. True) ?k builds \<noteq> []"
    by (simp add: durationKeys_nonempty)
  have "avg_duration_mins (deployment_time (weekly (aggregate t builds))) ! i
      = avgOf (bucketDurations weekKey (\<lambda>f. True) ?k builds)"
    using i by (simp add: deployment_time_weekly)
  with ne show ?thesis
    by (simp add: deployment_time_weekly bucketDurations_week meanOver_def avgOf_def)
qed

lemma twoPipelines_weekly:
  "deployment_time (weekly (aggregate 0 twoPipelines))
     = \<lparr>dt_keys = [''2024-W01''], avg_duration_mins = [20]\<rparr>"
proof -
  have dk: "durationKeys weekKey (\<lambda>f. True) twoPipelines = set [''2024-W01'']"
    by (simp add: durationKeys_def twoPipelines_def List.map_filter_def build_eval)
  have d: "bucketDurations weekKey (\<lambda>f. True) ''2024-W01'' twoPipelines = [20]"
    by (simp add: bucketDurations_def twoPipelines_def List.map_filter_def build_eval)
  have k1: "sorted_list_of_set (set [''2024-W01'']) = [''2024-W01'']"
    by (subst sorted_list_of_set_sort_remdups) simp
  show ?thesis
    by (simp only: deployment_time_weekly dk k1) (simp add: d avgOf_def)
qed

lemma twoPipelines_eligible:
  "filter (eligible ''2024-W01'') twoPipelines = twoPipelines"
  "map elapsedMinutes twoPipelines = [10, 20]"
  "length twoPipelines = 2"
  "filter (\<lambda>b. isDeploymentPipeline b \<and> eligible ''2024-W01'' b) twoPipelines
     = [mkBuild legacy ''passed'' ''2024-01-01T10:00:00Z'' ''2024-01-01T10:20:00Z'']"
  by (simp_all add: twoPipelines_def eligible_def elapsedMinutes_def build_eval)

theorem avg_is_mean_over_tracked_eligible_witness:
  "0 < length (dt_keys (deployment_time (weekly (aggregate 0 twoPipelines))))
   \<and> dt_keys (deployment_time (weekly (aggregate 0 twoPipelines))) ! 0 = ''2024-W01''
   \<and> filter (\<lambda>b. isDeploymentPipeline b \<and> eligible ''2024-W01'' b) twoPipelines
       = [mkBuild legacy ''passed'' ''2024-01-01T10:00:00Z'' ''2024-01-01T10:20:00Z'']
   \<and> avg_duration_mins (deployment_time (weekly (aggregate 0 twoPipelines))) ! 0
       = meanOver (\<lambda>b. isDeploymentPipeline b \<and> eligible ''2024-W01'' b) twoPipelines
   \<and> meanOver (\<lambda>b. isDeploymentPipeline b \<and> eligible ''2024-W01'' b) twoPipelines = 20"
proof -
  have h: "0 < length (dt_keys (deployment_time (weekly (aggregate 0 twoPipelines))))"
    by (simp add: twoPipelines_weekly)
  show ?thesis
    using h avg_is_mean_over_tracked_eligible [OF h]
    by (simp add: twoPipelines_weekly twoPipelines_eligible meanOver_def elapsedMinutes_def build_eval)
qed

text \<open>
  C3, as stated, fails when a record of the other configured pipeline is in the merged
  set. Two passed records with valid durations of 10 and 20 minutes finish in week
  2024-W01, the first from core-stack-deployment-pipeline and the second from
  core-stack-deployment-pipeline-legacy. Both satisfy every condition of the claim, so the
  claimed value is their mean 15; the handler reports 20.
\<close>

theorem avg_over_all_eligible_counterexample:
  "dt_keys (deployment_time (weekly (aggregate 0 twoPipelines))) = [''2024-W01'']
   \<and> filter (eligible ''2024-W01'') twoPipelines = twoPipelines
   \<and> meanOver (eligible ''2024-W01'') twoPipelines = 15
   \<and> avg_duration_mins (deployment_time (weekly (aggregate 0 twoPipelines))) = [20]"
  by (simp add: twoPipelines_weekly twoPipelines_eligible meanOver_def)

lemma fst_processBuilds:
  "fst (processBuilds t builds) = foldl (stepWith weekKey (\<lambda>f. True)) emptyAcc builds"
  by (simp add: processBuilds_split)

lemma invalidDurations_weekly:
  "weekly (aggregate 0 invalidDurations)
     = \<lparr>deployment_time = \<lparr>dt_keys = [], avg_duration_mins = []\<rparr>,
        failure_rates = \<lparr>fr_keys = [''2024-W01''], failure_rate = [0],
                         passed = [2], failed = [0]\<rparr>\<rparr>"
proof -
  have na: "\<not> After (T0\<lparr>tMin := 10\<rparr>) (T0\<lparr>tMin := 10\<rparr>)"
    by (simp add: After_def)
  have dk: "durationKeys weekKey (\<lambda>f. True) invalidDurations = {}"
    by (simp add: durationKeys_def invalidDurations_def List.map_filter_def build_eval na)
  have pk: "stateKeys ''passed'' weekKey (\<lambda>f. True) invalidDurations = set [''2024-W01'']"
    by (simp add: stateKeys_def invalidDurations_def List.map_filter_def build_eval)
  have fk: "stateKeys ''failed'' weekKey (\<lambda>f. True) invalidDurations = {}"
    by (simp add: stateKeys_def invalidDurations_def List.map_filter_def build_eval)
  have c: "bucketCount ''passed'' weekKey (\<lambda>f. True) ''2024-W01'' invalidDurations = 2"
     "bucketCount ''failed'' weekKey (\<lambda>f. True) ''2024-W01'' invalidDurations = 0"
    by (simp_all add: bucketCount_def invalidDurations_def build_eval)
  have k1: "sorted_list_of_set (set [''2024-W01''] \<union> {}) = [''2024-W01'']"
    by simp
  show ?thesis
    by (simp only: weekly_aggregate metricsOf_def deploymentTimeOf_fold failureRateOf_fold
        dk pk fk k1 Let_def) (simp add: c rateOf_def)
qed

lemma invalidDurations_fields:
  "filter (\<lambda>b. isDeploymentPipeline b \<and> eligible ''2024-W01'' b) invalidDurations = []"
  "filter (\<lambda>b. isDeploymentPipeline b \<and> State b = ''passed'' \<and> finishedIn ''2024-W01'' b)
     invalidDurations = invalidDurations"
  by (simp_all add: invalidDurations_def eligible_def finishedIn_def build_eval After_def)

lemma processBuild_skips:
  "\<not> isDeploymentPipeline b \<or> parseTime (FinishedAt b) = None \<Longrightarrow> processBuild t acc b = acc"
  by (cases acc) (auto simp: processBuild_def)

lemma processBuilds_considered:
  "foldl (processBuild t) acc builds
     = foldl (processBuild t) acc
         (filter (\<lambda>b. isDeploymentPipeline b \<and> parseTime (FinishedAt b) \<noteq> None) builds)"
proof (induction builds arbitrary: acc)
  case Nil
  show ?case by simp
next
  case (Cons b bs)
  show ?case
  proof (cases "isDeploymentPipeline b \<and> parseTime (FinishedAt b) \<noteq> None")
    case True
    then show ?thesis using Cons.IH by simp
  next
    case False
    then have "processBuild t acc b = acc"
      by (intro processBuild_skips) auto
    with False show ?thesis using Cons.IH by simp
  qed
qed

lemma aggregate_considered:
  fixes t builds
  defines "cs \<equiv> filter (\<lambda>b. isDeploymentPipeline b \<and> parseTime (FinishedAt b) \<noteq> None) builds"
  shows "weekly (aggregate t builds) = weekly (aggregate t cs)"
    and "daily (aggregate t builds) = daily (aggregate t cs)"
    and "weekly_deployments (aggregate t builds) = weekly_deployments (aggregate t cs)"
    and "daily_deployments (aggregate t builds) = daily_deployments (aggregate t cs)"
proof -
  have "processBuilds t builds = processBuilds t cs"
    unfolding processBuilds_def cs_def by (rule processBuilds_considered)
  then show "weekly (aggregate t builds) = weekly (aggregate t cs)"
    and "daily (aggregate t builds) = daily (aggregate t cs)"
    and "weekly_deployments (aggregate t builds) = weekly_deployments (aggregate t cs)"
    and "daily_deployments (aggregate t builds) = daily_deployments (aggregate t cs)"
    by (simp_all add: aggregate_def split: prod.splits)
qed

lemma total_builds_aggregate: "total_builds (aggregate t builds) = length builds"
  by (simp add: aggregate_def split: prod.splits)

lemma invalidDurations_total: "length invalidDurations = 2"
  by (simp add: invalidDurations_def)

text \<open>
  C6, as the code of \<open>kpiBuildkiteCombinedAll\<close> has it, for every week \<open>k\<close>. The durations
  collected for \<open>k\<close> are those of the tracked-pipeline records that are eligible, that is,
  passed with both timestamps parsing, \<open>finishedAt\<close> strictly after \<open>startedAt\<close> (equal
  instants excluded) and \<open>finishedAt\<close> in week \<open>k\<close>; the duration series has the week \<open>k\<close>
  exactly when there is such a record, and its value there is their mean. The passed count
  of \<open>k\<close>, which is what the failure-rate series reports, counts every tracked-pipeline
  record that is passed and whose \<open>finishedAt\<close> parses and falls in \<open>k\<close>, whether or not its
  duration is valid; such a record makes \<open>k\<close> a week of the failure-rate series. A record
  of another pipeline, or one whose \<open>finishedAt\<close> does not parse, leaves every map and
  counter of the loop as it was: the weekly and daily series and the two deployment counts
  are those of the list without such records. It is counted in \<open>total_builds\<close> only, which
  is the length of the whole list.
\<close>

theorem passed_record_duration_and_count:
  "Mapping.lookup_default [] (durations (fst (processBuilds t builds))) k
     = map elapsedMinutes (filter (\<lambda>b. isDeploymentPipeline b \<and> eligible k b) builds)
   \<and> (\<forall>b. eligible k b \<longleftrightarrow>
            State b = ''passed''
            \<and> (\<exists>s f. parseTime (StartedAt b) = Some s \<and> parseTime (FinishedAt b) = Some f
                     \<and> unixNano s < unixNano f \<and> weekKey f = k))
   \<and> Mapping.lookup_default 0 (passedBy (fst (processBuilds t builds))) k
     = length (filter (\<lambda>b. isDeploymentPipeline b \<and> State b = ''passed'' \<and> finishedIn k b) builds)
   \<and> passed (failure_rates (weekly (aggregate t builds)))
     = map (\<lambda>k. length (filter (\<lambda>b. isDeploymentPipeline b \<and> State b = ''passed''
                                      \<and> finishedIn k b) builds))
           (fr_keys (failure_rates (weekly (aggregate t builds))))
   \<and> (\<forall>b \<in> set builds.
         isDeploymentPipeline b \<and> State b = ''passed'' \<and> finishedIn k b
         \<longrightarrow> k \<in> set (fr_keys (failure_rates (weekly (aggregate t builds)))))
   \<and> (k \<in> set (dt_keys (deployment_time (weekly (aggregate t builds))))
        \<longleftrightarrow> filter (\<lambda>b. isDeploymentPipeline b \<and> eligible k b) builds \<noteq> [])
   \<and> avg_duration_mins (deployment_time (weekly (aggregate t builds)))
       = map (\<lambda>k. meanOver (\<lambda>b. isDeploymentPipeline b \<and> eligible k b) builds)
             (dt_keys (deployment_time (weekly (aggregate t builds))))
   \<and> (\<forall>acc b. \<not> isDeploymentPipeline b \<or> parseTime (FinishedAt b) = None
         \<longrightarrow> processBuild t acc b = acc)
   \<and> weekly (aggregate t builds)
       = weekly (aggregate t (filter (\<lambda>b. isDeploymentPipeline b
                                           \<and> parseTime (FinishedAt b) \<noteq> None) builds))
   \<and> daily (aggregate t builds)
       = daily (aggregate t (filter (\<lambda>b. isDeploymentPipeline b
                                          \<and> parseTime (FinishedAt b) \<noteq> None) builds))
   \<and> weekly_deployments (aggregate t builds)
       = weekly_deployments (aggregate t (filter (\<lambda>b. isDeploymentPipeline b
                                                       \<and> parseTime (FinishedAt b) \<noteq> None) builds))
   \<and> daily_deployments (aggregate t builds)
       = daily_deployments (aggregate t (filter (\<lambda>b. isDeploymentPipeline b
                                                      \<and> parseTime (FinishedAt b) \<noteq> None) builds))
   \<and> total_builds (aggregate t builds) = length builds"
proof -
  have a: "Mapping.lookup_default [] (durations (fst (processBuilds t builds))) k
     = map elapsedMinutes (filter (\<lambda>b. isDeploymentPipeline b \<and> eligible k b) builds)"
    by (simp add: fst_processBuilds lookup_durations_fold bucketDurations_week)
  have b: "Mapping.lookup_default 0 (passedBy (fst (processBuilds t builds))) k
     = length (filter (\<lambda>b. isDeploymentPipeline b \<and> State b = ''passed'' \<and> finishedIn k b) builds)"
    by (simp add: fst_processBuilds lookup_passedBy_fold bucketCount_week)
  have c: "passed (failure_rates (weekly (aggregate t builds)))
     = map (\<lambda>k. length (filter (\<lambda>b. isDeploymentPipeline b \<and> State b = ''passed''
                                      \<and> finishedIn k b) builds))
           (fr_keys (failure_rates (weekly (aggregate t builds))))"
    by (simp add: failure_rates_weekly Let_def bucketCount_week)
  have d: "k \<in> set (fr_keys (failure_rates (weekly (aggregate t builds))))"
    if "b \<in> set builds" "isDeploymentPipeline b" "State b = ''passed''" "finishedIn k b" for b
  proof -
    from that have "filter (\<lambda>b. isDeploymentPipeline b \<and> State b = ''passed'' \<and> finishedIn k b) builds \<noteq> []"
      by (auto simp: filter_empty_conv)
    then have "0 < bucketCount ''passed'' weekKey (\<lambda>f. True) k builds"
      by (simp add: bucketCount_week)
    then have "k \<in> stateKeys ''passed'' weekKey (\<lambda>f. True) builds"
      by (simp add: stateKeys_positive)
    then show ?thesis
      by (simp add: failure_rates_weekly Let_def finite_stateKeys)
  qed
  have bd: "\<And>k. bucketDurations weekKey (\<lambda>f. True) k builds
      = map elapsedMinutes (filter (\<lambda>b. isDeploymentPipeline b \<and> eligible k b) builds)"
    by (rule bucketDurations_week)
  have e: "k \<in> set (dt_keys (deployment_time (weekly (aggregate t builds))))
        \<longleftrightarrow> filter (\<lambda>b. isDeploymentPipeline b \<and> eligible k b) builds \<noteq> []"
    by (simp only: weekly_aggregate
        series_of_fold(10) [of weekKey "\<lambda>f. True" builds _ "\<lambda>k. bucketCount ''passed'' weekKey (\<lambda>f. True) k builds"
           "\<lambda>k. bucketCount ''failed'' weekKey (\<lambda>f. True) k builds", OF bd refl refl]
        mem_Collect_eq)
  have f: "avg_duration_mins (deployment_time (weekly (aggregate t builds)))
       = map (\<lambda>k. meanOver (\<lambda>b. isDeploymentPipeline b \<and> eligible k b) builds)
             (dt_keys (deployment_time (weekly (aggregate t builds))))"
    unfolding meanOver_def
    by (simp only: weekly_aggregate)
       (rule series_of_fold(3) [of weekKey "\<lambda>f. True" builds _ "\<lambda>k. bucketCount ''passed'' weekKey (\<lambda>f. True) k builds"
           "\<lambda>k. bucketCount ''failed'' weekKey (\<lambda>f. True) k builds", OF bd refl refl])
  have g: "\<forall>acc b. \<not> isDeploymentPipeline b \<or> parseTime (FinishedAt b) = None
         \<longrightarrow> processBuild t acc b = acc"
    using processBuild_skips by blast
  have abc: "Mapping.lookup_default [] (durations (fst (processBuilds t builds))) k
     = map elapsedMinutes (filter (\<lambda>b. isDeploymentPipeline b \<and> eligible k b) builds)
   \<and> (\<forall>b. eligible k b \<longleftrightarrow>
            State b = ''passed''
            \<and> (\<exists>s f. parseTime (StartedAt b) = Some s \<and> parseTime (FinishedAt b) = Some f
                     \<and> unixNano s < unixNano f \<and> weekKey f = k))
   \<and> Mapping.lookup_default 0 (passedBy (fst (processBuilds t builds))) k
     = length (filter (\<lambda>b. isDeploymentPipeline b \<and> State b = ''passed'' \<and> finishedIn k b) builds)
   \<and> passed (failure_rates (weekly (aggregate t builds)))
     = map (\<lambda>k. length (filter (\<lambda>b. isDeploymentPipeline b \<and> State b = ''passed''
                                      \<and> finishedIn k b) builds))
           (fr_keys (failure_rates (weekly (aggregate t builds))))
   \<and> (\<forall>b \<in> set builds.
         isDeploymentPipeline b \<and> State b = ''passed'' \<and> finishedIn k b
         \<longrightarrow> k \<in> set (fr_keys (failure_rates (weekly (aggregate t builds)))))"
    using a b c d by (simp add: eligible_iff)
  show ?thesis
    using abc e f g aggregate_considered [of t builds] total_builds_aggregate [of t builds]
    by (intro conjI) blast+
qed

theorem passed_record_duration_and_count_witness:
  "Mapping.lookup_default [] (durations (fst (processBuilds 0 invalidDurations))) ''2024-W01'' = []
   \<and> Mapping.lookup_default 0 (passedBy (fst (processBuilds 0 invalidDurations))) ''2024-W01'' = 2
   \<and> dt_keys (deployment_time (weekly (aggregate 0 invalidDurations))) = []
   \<and> fr_keys (failure_rates (weekly (aggregate 0 invalidDurations))) = [''2024-W01'']
   \<and> passed (failure_rates (weekly (aggregate 0 invalidDurations))) = [2]
   \<and> mkBuild legacy ''passed'' [] ''2024-01-01T10:10:00Z'' \<in> set invalidDurations
   \<and> isDeploymentPipeline (mkBuild legacy ''passed'' [] ''2024-01-01T10:10:00Z'')
   \<and> State (mkBuild legacy ''passed'' [] ''2024-01-01T10:10:00Z'') = ''passed''
   \<and> finishedIn ''2024-W01'' (mkBuild legacy ''passed'' [] ''2024-01-01T10:10:00Z'')
   \<and> \<not> eligible ''2024-W01'' (mkBuild legacy ''passed'' [] ''2024-01-01T10:10:00Z'')
   \<and> ''2024-W01'' \<in> set (fr_keys (failure_rates (weekly (aggregate 0 invalidDurations))))
   \<and> \<not> isDeploymentPipeline
         (mkBuild ''core-stack-deployment-pipeline'' ''passed'' [] ''2024-01-01T10:10:00Z'')
   \<and> processBuild 0 (emptyAcc, emptyAcc)
         (mkBuild ''core-stack-deployment-pipeline'' ''passed'' [] ''2024-01-01T10:10:00Z'')
       = (emptyAcc, emptyAcc)
   \<and> total_builds (aggregate 0 invalidDurations) = 2"
proof -
  note t = passed_record_duration_and_count [of 0 invalidDurations "''2024-W01''"]
  have a: "Mapping.lookup_default [] (durations (fst (processBuilds 0 invalidDurations))) ''2024-W01'' = []"
    using t [THEN conjunct1] by (simp add: invalidDurations_fields)
  have b: "Mapping.lookup_default 0 (passedBy (fst (processBuilds 0 invalidDurations))) ''2024-W01'' = 2"
    using t [THEN conjunct2, THEN conjunct2, THEN conjunct1]
    by (simp add: invalidDurations_fields invalidDurations_total)
  from t have "\<forall>acc b. \<not> isDeploymentPipeline b \<or> parseTime (FinishedAt b) = None
         \<longrightarrow> processBuild 0 acc b = acc"
    by blast
  then have c: "processBuild 0 (emptyAcc, emptyAcc)
         (mkBuild ''core-stack-deployment-pipeline'' ''passed'' [] ''2024-01-01T10:10:00Z'')
       = (emptyAcc, emptyAcc)"
    by (simp add: isDeploymentPipeline_mkBuild)
  from t have d: "total_builds (aggregate 0 invalidDurations) = 2"
    by (simp only: invalidDurations_total)
  have e: "mkBuild legacy ''passed'' [] ''2024-01-01T10:10:00Z'' \<in> set invalidDurations"
     "finishedIn ''2024-W01'' (mkBuild legacy ''passed'' [] ''2024-01-01T10:10:00Z'')"
     "\<not> eligible ''2024-W01'' (mkBuild legacy ''passed'' [] ''2024-01-01T10:10:00Z'')"
    by (simp_all add: invalidDurations_def eligible_def finishedIn_def build_eval)
  show ?thesis
    using a b c d e
    by (simp add: invalidDurations_weekly isDeploymentPipeline_mkBuild fields_mkBuild)
qed

lemma untracked_weekly:
  "failure_rates (weekly (aggregate 0 untracked))
     = \<lparr>fr_keys = [], failure_rate = [], passed = [], failed = []\<rparr>"
proof -
  have pk: "stateKeys ''passed'' weekKey (\<lambda>f. True) untracked = {}"
    by (simp add: stateKeys_def untracked_def List.map_filter_def build_eval)
  have fk: "stateKeys ''failed'' weekKey (\<lambda>f. True) untracked = {}"
    by (simp add: stateKeys_def untracked_def List.map_filter_def build_eval)
  show ?thesis
    by (simp add: failure_rates_weekly pk fk)
qed

text \<open>
  C6, as stated, fails for a passed record of the other configured pipeline: its
  \<open>startedAt\<close> is absent, its \<open>finishedAt\<close> lies in week 2024-W01, and it is not counted
  in the passed count of that week (the failure-rate series stays empty).
\<close>

theorem untracked_passed_record_counterexample:
  "untracked = [mkBuild ''core-stack-deployment-pipeline'' ''passed'' [] ''2024-01-01T10:10:00Z'']
   \<and> State (mkBuild ''core-stack-deployment-pipeline'' ''passed'' [] ''2024-01-01T10:10:00Z'') = ''passed''
   \<and> parseTime (StartedAt (mkBuild ''core-stack-deployment-pipeline'' ''passed'' [] ''2024-01-01T10:10:00Z'')) = None
   \<and> finishedIn ''2024-W01'' (mkBuild ''core-stack-deployment-pipeline'' ''passed'' [] ''2024-01-01T10:10:00Z'')
   \<and> fr_keys (failure_rates (weekly (aggregate 0 untracked))) = []
   \<and> passed (failure_rates (weekly (aggregate 0 untracked))) = []
   \<and> Mapping.lookup_default 0 (passedBy (fst (processBuilds 0 untracked))) ''2024-W01'' = 0"
  by (simp add: untracked_weekly fst_processBuilds lookup_passedBy_fold)
     (simp add: untracked_def finishedIn_def bucketCount_def build_eval)

lemma scenario_records:
  "filter (\<lambda>b. isDeploymentPipeline b \<and> eligible ''2024-W01'' b) scenario
     = [mkBuild legacy ''passed'' ''2024-01-01T10:00:00Z'' ''2024-01-01T10:10:00Z'',
        mkBuild legacy ''passed'' ''2024-01-01T10:00:00Z'' ''2024-01-01T10:20:00Z'']"
  "map elapsedMinutes
     [mkBuild legacy ''passed'' ''2024-01-01T10:00:00Z'' ''2024-01-01T10:10:00Z'',
      mkBuild legacy ''passed'' ''2024-01-01T10:00:00Z'' ''2024-01-01T10:20:00Z''] = [10, 20]"
  "length (filter (\<lambda>b. isDeploymentPipeline b \<and> State b = ''passed'' \<and> finishedIn ''2024-W01'' b)
             scenario) = 2"
  "length (filter (\<lambda>b. isDeploymentPipeline b \<and> State b = ''failed'' \<and> finishedIn ''2024-W01'' b)
             scenario) = 0"
  "length (filter (\<lambda>b. isDeploymentPipeline b \<and> State b = ''passed'' \<and> finishedIn ''2024-W02'' b)
             scenario) = 0"
  "length (filter (\<lambda>b. isDeploymentPipeline b \<and> State b = ''failed'' \<and> finishedIn ''2024-W02'' b)
             scenario) = 1"
  by (simp_all add: scenario_def eligible_def elapsedMinutes_def finishedIn_def build_eval)

lemma untracked_finished:
  "filter (\<lambda>b. State b = ''passed'' \<and> finishedIn ''2024-W01'' b) untracked = untracked"
  by (simp add: untracked_def finishedIn_def build_eval)

text \<open>
  C1, as the code has it. The loop looks only at the records of the tracked pipeline whose
  \<open>finishedAt\<close> parses; the week of such a record is the ISO week of \<open>finishedAt\<close>. The weekly
  output consists of two series, each over its own sorted list of week keys. The duration
  series runs over the weeks \<open>k\<close> that hold at least one record of the tracked pipeline that
  is passed, whose two timestamps parse and whose \<open>finishedAt\<close> is strictly after
  \<open>startedAt\<close> (the list \<open>E k\<close>); its value at a week is the mean of the durations of those
  records, and no week of this series is empty, so no 0 is filled in. The failure-rate
  series runs over the weeks that hold at least one passed or failed record of the tracked
  pipeline whose \<open>finishedAt\<close> parses; its value at a week is
  \<open>failed / (passed + failed) * 100\<close> over the counts \<open>P k\<close> and \<open>F k\<close> of those records, with
  a positive denominator, next to the two counts. Every week of the duration series is a
  week of the failure-rate series.
\<close>

theorem weekly_series_over_own_keys:
  fixes t :: int and builds :: "BuildkiteBuild list"
  defines "w \<equiv> weekly (aggregate t builds)"
  defines "E \<equiv> (\<lambda>k. filter (\<lambda>b. isDeploymentPipeline b \<and> eligible k b) builds)"
  defines "P \<equiv> (\<lambda>k. length (filter (\<lambda>b. isDeploymentPipeline b \<and> State b = ''passed''
                                        \<and> finishedIn k b) builds))"
  defines "F \<equiv> (\<lambda>k. length (filter (\<lambda>b. isDeploymentPipeline b \<and> State b = ''failed''
                                        \<and> finishedIn k b) builds))"
  shows "dt_keys (deployment_time w) = sorted_list_of_set {k. E k \<noteq> []}
       \<and> finite {k. E k \<noteq> []}
       \<and> avg_duration_mins (deployment_time w)
           = map (\<lambda>k. sum_list (map elapsedMinutes (E k)) / of_nat (length (E k)))
                 (dt_keys (deployment_time w))
       \<and> fr_keys (failure_rates w) = sorted_list_of_set {k. 0 < P k + F k}
       \<and> finite {k. 0 < P k + F k}
       \<and> failure_rate (failure_rates w)
           = map (\<lambda>k. of_nat (F k) / of_nat (P k + F k) * 100) (fr_keys (failure_rates w))
       \<and> passed (failure_rates w) = map P (fr_keys (failure_rates w))
       \<and> failed (failure_rates w) = map F (fr_keys (failure_rates w))
       \<and> set (dt_keys (deployment_time w)) \<subseteq> set (fr_keys (failure_rates w))"
proof -
  have w: "w = metricsOf (foldl (stepWith weekKey (\<lambda>f. True)) emptyAcc builds)"
    by (simp only: w_def weekly_aggregate)
  have d: "\<And>k. bucketDurations weekKey (\<lambda>f. True) k builds = map elapsedMinutes (E k)"
    by (simp only: E_def bucketDurations_week)
  have p: "\<And>k. bucketCount ''passed'' weekKey (\<lambda>f. True) k builds = P k"
    by (simp only: P_def bucketCount_week)
  have f: "\<And>k. bucketCount ''failed'' weekKey (\<lambda>f. True) k builds = F k"
    by (simp only: F_def bucketCount_week)
  note s = series_of_fold [of weekKey "\<lambda>f. True" builds E P F, OF d p f, folded w]
  show ?thesis
    by (intro conjI) (rule s)+
qed

theorem weekly_series_over_own_keys_witness:
  "dt_keys (deployment_time (weekly (aggregate 0 scenario))) = [''2024-W01'']
   \<and> filter (\<lambda>b. isDeploymentPipeline b \<and> eligible ''2024-W01'' b) scenario
       = [mkBuild legacy ''passed'' ''2024-01-01T10:00:00Z'' ''2024-01-01T10:10:00Z'',
          mkBuild legacy ''passed'' ''2024-01-01T10:00:00Z'' ''2024-01-01T10:20:00Z'']
   \<and> avg_duration_mins (deployment_time (weekly (aggregate 0 scenario))) = [(10 + 20) / 2]
   \<and> fr_keys (failure_rates (weekly (aggregate 0 scenario))) = [''2024-W01'', ''2024-W02'']
   \<and> failure_rate (failure_rates (weekly (aggregate 0 scenario))) = [0 / (2 + 0) * 100, 1 / (0 + 1) * 100]
   \<and> passed (failure_rates (weekly (aggregate 0 scenario))) = [2, 0]
   \<and> failed (failure_rates (weekly (aggregate 0 scenario))) = [0, 1]
   \<and> length (filter (\<lambda>b. isDeploymentPipeline b \<and> State b = ''passed'' \<and> finishedIn ''2024-W01'' b)
               scenario) = 2
   \<and> length (filter (\<lambda>b. isDeploymentPipeline b \<and> State b = ''failed'' \<and> finishedIn ''2024-W02'' b)
               scenario) = 1"
  using weekly_series_over_own_keys [of 0 scenario]
  by (simp add: scenario_weekly scenario_records)

text \<open>
  C1, as stated, fails on its own scenario: two passed builds of 10 and 20 minutes in week
  2024-W01 and one failed build in week 2024-W02. The duration series has the single week
  2024-W01 and the single value 15; it is not aligned with the two weeks of the
  failure-rate series and holds no 0 for the week without durations. It also fails on
  records of another pipeline: of two passed builds of 10 and 20 minutes in week 2024-W01,
  the first of \<open>core-stack-deployment-pipeline\<close>, the series holds 20 and not the mean 15 of
  the durations of that week, and a passed build of that pipeline alone gives the
  failure-rate series no week.
\<close>

theorem weekly_series_alignment_counterexample:
  "dt_keys (deployment_time (weekly (aggregate 0 scenario))) = [''2024-W01'']
   \<and> avg_duration_mins (deployment_time (weekly (aggregate 0 scenario))) = [15]
   \<and> fr_keys (failure_rates (weekly (aggregate 0 scenario))) = [''2024-W01'', ''2024-W02'']
   \<and> failure_rate (failure_rates (weekly (aggregate 0 scenario))) = [0, 100]
   \<and> passed (failure_rates (weekly (aggregate 0 scenario))) = [2, 0]
   \<and> failed (failure_rates (weekly (aggregate 0 scenario))) = [0, 1]
   \<and> avg_duration_mins (deployment_time (weekly (aggregate 0 scenario))) \<noteq> [15, 0]
   \<and> dt_keys (deployment_time (weekly (aggregate 0 scenario)))
       \<noteq> fr_keys (failure_rates (weekly (aggregate 0 scenario)))
   \<and> map elapsedMinutes (filter (eligible ''2024-W01'') twoPipelines) = [10, 20]
   \<and> avg_duration_mins (deployment_time (weekly (aggregate 0 twoPipelines))) = [20]
   \<and> filter (\<lambda>b. State b = ''passed'' \<and> finishedIn ''2024-W01'' b) untracked = untracked
   \<and> fr_keys (failure_rates (weekly (aggregate 0 untracked))) = []"
  by (simp add: scenario_weekly twoPipelines_weekly twoPipelines_eligible untracked_weekly
      untracked_finished)

section \<open>The daily sub-window\<close>

lemma unixNano_shift_day:
  "unixNano (t\<lparr>tDay := tDay t + d\<rparr>) = unixNano t + d * 86400000000000"
proof -
  have "yearDay (t\<lparr>tDay := tDay t + d\<rparr>) = yearDay t + d"
    by (simp add: yearDay_def)
  then have "absDays (t\<lparr>tDay := tDay t + d\<rparr>) = absDays t + d"
    by (simp add: absDays_def)
  then have "unixSec (t\<lparr>tDay := tDay t + d\<rparr>) = unixSec t + d * 86400"
    by (simp add: unixSec_def algebra_simps)
  then show ?thesis
    by (simp add: unixNano_def algebra_simps)
qed

lemma AddDate_days:
  assumes "1 \<le> tMonth t" "tMonth t \<le> 12"
  shows "AddDate t 0 0 d = unixNano t + d * 86400000000000"
proof -
  have "(tMonth t - 1) div 12 = 0" "(tMonth t - 1) mod 12 + 1 = tMonth t"
    using assms by auto
  then have "AddDate t 0 0 d = unixNano (t\<lparr>tDay := tDay t + d\<rparr>)"
    by (simp add: AddDate_def)
  then show ?thesis
    by (simp add: unixNano_shift_day)
qed

lemma stepWith_outside:
  "(case parseTime (FinishedAt b) of Some f \<Rightarrow> \<not> inWindow f | None \<Rightarrow> True)
     \<Longrightarrow> stepWith keyOf inWindow a b = a"
  by (simp add: stepWith_def split: option.splits)

lemma stepWith_inside:
  "(case parseTime (FinishedAt b) of Some f \<Rightarrow> inWindow f | None \<Rightarrow> False)
     \<Longrightarrow> stepWith keyOf inWindow a b = stepWith keyOf (\<lambda>f. True) a b"
  by (simp add: stepWith_def split: option.splits)

lemma stepWith_window:
  "foldl (stepWith keyOf inWindow) a bs
     = foldl (stepWith keyOf (\<lambda>f. True)) a
         (filter (\<lambda>b. case parseTime (FinishedAt b) of Some f \<Rightarrow> inWindow f | None \<Rightarrow> False) bs)"
proof (induction bs arbitrary: a)
  case Nil
  show ?case by simp
next
  case (Cons b bs)
  show ?case
  proof (cases "case parseTime (FinishedAt b) of Some f \<Rightarrow> inWindow f | None \<Rightarrow> False")
    case True
    then show ?thesis by (simp add: stepWith_inside Cons.IH)
  next
    case False
    then have "stepWith keyOf inWindow a b = a"
      by (intro stepWith_outside) (simp split: option.splits)
    with False show ?thesis by (simp add: Cons.IH)
  qed
qed

lemma daily_aggregate_window:
  "daily (aggregate t builds)
     = metricsOf (foldl (stepWith dayKey (\<lambda>f. True)) emptyAcc (filter (finishedAfter t) builds))"
proof -
  have "finishedAfter t = (\<lambda>b. case parseTime (FinishedAt b) of Some f \<Rightarrow> t < unixNano f | None \<Rightarrow> False)"
    by (rule ext) (simp add: finishedAfter_def)
  then show ?thesis
    by (simp only: daily_aggregate stepWith_window [of dayKey "\<lambda>f. t < unixNano f"])
qed

lemma getCachedBuilds_Inr:
  "\<exists>builds cache'. getCachedBuilds buildkiteCache n s up cf = (Inr builds, cache')"
  by (auto simp: getCachedBuilds_def fetchBuildsParallel_def split: option.splits)

lemma parse_Feb5: "parseTime ''2024-02-05T10:10:00Z'' = Some (T0\<lparr>tMonth := 2, tDay := 5, tMin := 10\<rparr>)"
  by (simp add: parse_eval T0_def)

lemma unixNano_Feb:
  "unixNano (T0\<lparr>tMonth := 2, tDay := d, tMin := 10\<rparr>) = 1706782200000000000 + (d - 1) * 86400000000000"
  by (simp add: instant_eval T0_def)

lemma keys_Feb5:
  "weekKey (T0\<lparr>tMonth := 2, tDay := 5, tMin := 10\<rparr>) = ''2024-W06''"
  "dayKey (T0\<lparr>tMonth := 2, tDay := 5, tMin := 10\<rparr>) = ''2024-02-05''"
  by (simp_all add: key_eval T0_def)

lemma fetch_legacyOnly:
  "length bs < buildkitePerPage \<Longrightarrow> fetchBuildsParallel (legacyOnly bs) createdFrom = Inr bs"
  by (simp add: fetchBuildsParallel_def pipelines_def fetchBuildsFromPipeline_def legacyOnly_def
      legacy_def)

lemma window_old_recent:
  "filter (finishedAfter (unixNano mid_february - 2592000000000000)) [old45, recent10] = [recent10]"
  by (simp add: finishedAfter_def old45_def recent10_def mid_february_def fields_mkBuild parsed
      parse_Feb5 unixNano_T0 unixNano_Feb)

lemma old_recent_series:
  "fr_keys (failure_rates (weekly (aggregate t [old45, recent10]))) = [''2024-W01'', ''2024-W06'']"
  "fr_keys (failure_rates (daily (aggregate (unixNano mid_february - 2592000000000000)
                                           [old45, recent10])))
     = [''2024-02-05'']"
proof -
  have pk: "stateKeys ''passed'' weekKey (\<lambda>f. True) [old45, recent10] = set [''2024-W01'']"
    by (simp add: stateKeys_def old45_def recent10_def List.map_filter_def build_eval parse_Feb5 keys_Feb5)
  have fk: "stateKeys ''failed'' weekKey (\<lambda>f. True) [old45, recent10] = set [''2024-W06'']"
    by (simp add: stateKeys_def old45_def recent10_def List.map_filter_def build_eval parse_Feb5 keys_Feb5)
  have k2: "sorted_list_of_set (set [''2024-W01''] \<union> set [''2024-W06'']) = [''2024-W01'', ''2024-W06'']"
    by (subst set_append [symmetric], subst sorted_list_of_set_sort_remdups) simp
  show "fr_keys (failure_rates (weekly (aggregate t [old45, recent10]))) = [''2024-W01'', ''2024-W06'']"
    by (simp only: weekly_aggregate metricsOf_def failureRateOf_fold pk fk k2 Let_def) simp
  have pd: "stateKeys ''passed'' dayKey (\<lambda>f. True) [recent10] = {}"
    by (simp add: stateKeys_def recent10_def List.map_filter_def build_eval parse_Feb5 keys_Feb5)
  have fd: "stateKeys ''failed'' dayKey (\<lambda>f. True) [recent10] = set [''2024-02-05'']"
    by (simp add: stateKeys_def recent10_def List.map_filter_def build_eval parse_Feb5 keys_Feb5)
  show "fr_keys (failure_rates (daily (aggregate (unixNano mid_february - 2592000000000000)
                                           [old45, recent10])))
     = [''2024-02-05'']"
    by (simp only: daily_aggregate_window window_old_recent metricsOf_def failureRateOf_fold pd fd Let_def)
       simp
qed

lemma bucketDurations_day:
  "bucketDurations dayKey (\<lambda>f. t < unixNano f) k bs
     = map elapsedMinutes (filter (\<lambda>b. isDeploymentPipeline b \<and> eligibleDay t k b) bs)"
  by (induction bs)
     (auto simp: bucketDurations_def List.map_filter_def bucketOf_def durationOf_def
        eligibleDay_def elapsedMinutes_def split: option.splits)

lemma bucketCount_day:
  "bucketCount st dayKey (\<lambda>f. t < unixNano f) k bs
     = length (filter (\<lambda>b. isDeploymentPipeline b \<and> State b = st \<and> finishedInDay t k b) bs)"
  by (induction bs)
     (auto simp: bucketCount_def bucketOf_def finishedInDay_def split: option.splits)

lemma count_pos: "b \<in> set bs \<Longrightarrow> Q b \<Longrightarrow> 0 < length (filter Q bs)"
  by (induction bs) auto

lemma daily_aggregate_in_window:
  "daily (aggregate t builds) = daily (aggregate t (filter (finishedAfter t) builds))"
  by (simp only: daily_aggregate_window filter_filter) simp

lemma recent_fields:
  "parseTime (FinishedAt otherRecent) = Some (T0\<lparr>tMonth := 2, tDay := 5, tMin := 10\<rparr>)"
  "parseTime (FinishedAt canceledRecent) = Some (T0\<lparr>tMonth := 2, tDay := 5, tMin := 10\<rparr>)"
  "State otherRecent = ''passed''" "State canceledRecent = ''canceled''"
  "PipelineSlug otherRecent = ''core-stack-deployment-pipeline''"
  "\<not> isDeploymentPipeline otherRecent" "isDeploymentPipeline canceledRecent"
  by (simp_all add: otherRecent_def canceledRecent_def fields_mkBuild parse_Feb5
      isDeploymentPipeline_mkBuild) (simp add: mkBuild_def)

lemma ten_days_before_mid_february:
  "unixNano (T0\<lparr>tMonth := 2, tDay := 5, tMin := 10\<rparr>) = unixNano mid_february - 864000000000000"
  "unixNano (T0\<lparr>tMin := 10\<rparr>) = unixNano mid_february - 3888000000000000"
  by (simp_all add: mid_february_def unixNano_T0 unixNano_Feb)

lemma otherRecent_series:
  "weekly (aggregate t [otherRecent]) = emptyMetrics"
  "daily (aggregate t [otherRecent]) = emptyMetrics"
  by (simp_all add: weekly_aggregate daily_aggregate stepWith_def recent_fields metricsOf_def
      deploymentTimeOf_def failureRateOf_def emptyAcc_def emptyMetrics_def)

lemma canceledRecent_series:
  "weekly (aggregate t [canceledRecent]) = emptyMetrics"
  "daily (aggregate t [canceledRecent]) = emptyMetrics"
proof -
  have dk: "durationKeys keyOf inWindow [canceledRecent] = {}" for keyOf inWindow
    by (simp add: durationKeys_def List.map_filter_def durationOf_def recent_fields)
  have pk: "stateKeys ''passed'' keyOf inWindow [canceledRecent] = {}" for keyOf inWindow
    by (simp add: stateKeys_def List.map_filter_def recent_fields)
  have fk: "stateKeys ''failed'' keyOf inWindow [canceledRecent] = {}" for keyOf inWindow
    by (simp add: stateKeys_def List.map_filter_def recent_fields)
  show "weekly (aggregate t [canceledRecent]) = emptyMetrics"
    by (simp only: weekly_aggregate metricsOf_def deploymentTimeOf_fold failureRateOf_fold dk pk fk
        Let_def) (simp add: emptyMetrics_def)
  show "daily (aggregate t [canceledRecent]) = emptyMetrics"
    by (simp only: daily_aggregate metricsOf_def deploymentTimeOf_fold failureRateOf_fold dk pk fk
        Let_def) (simp add: emptyMetrics_def)
qed

lemma canceledRecent_deployments:
  "weekly_deployments (aggregate (unixNano mid_february - 2592000000000000) [canceledRecent]) = 1"
  "daily_deployments (aggregate (unixNano mid_february - 2592000000000000) [canceledRecent]) = 1"
  by (simp_all add: aggregate_def processBuilds_def processBuild_def recent_fields bucketStep_def
      emptyAcc_def mid_february_def unixNano_Feb Let_def)

lemma old_recent_daily:
  "daily (aggregate (unixNano mid_february - 2592000000000000) [old45, recent10])
     = \<lparr>deployment_time = \<lparr>dt_keys = [], avg_duration_mins = []\<rparr>,
        failure_rates = \<lparr>fr_keys = [''2024-02-05''], failure_rate = [100],
                         passed = [0], failed = [1]\<rparr>\<rparr>"
proof -
  have dk: "durationKeys dayKey (\<lambda>f. True) [recent10] = {}"
    by (simp add: durationKeys_def recent10_def List.map_filter_def build_eval parse_Feb5 keys_Feb5)
  have pd: "stateKeys ''passed'' dayKey (\<lambda>f. True) [recent10] = {}"
    by (simp add: stateKeys_def recent10_def List.map_filter_def build_eval parse_Feb5 keys_Feb5)
  have fd: "stateKeys ''failed'' dayKey (\<lambda>f. True) [recent10] = set [''2024-02-05'']"
    by (simp add: stateKeys_def recent10_def List.map_filter_def build_eval parse_Feb5 keys_Feb5)
  have c: "bucketCount ''passed'' dayKey (\<lambda>f. True) ''2024-02-05'' [recent10] = 0"
     "bucketCount ''failed'' dayKey (\<lambda>f. True) ''2024-02-05'' [recent10] = 1"
    by (simp_all add: bucketCount_def recent10_def build_eval parse_Feb5 keys_Feb5)
  show ?thesis
    by (simp only: daily_aggregate_window window_old_recent metricsOf_def deploymentTimeOf_fold
        failureRateOf_fold dk pd fd Let_def)
       (simp add: c rateOf_def)
qed

lemma old_recent_fields:
  "isDeploymentPipeline old45" "State old45 = ''passed''"
  "parseTime (FinishedAt old45) = Some (T0\<lparr>tMin := 10\<rparr>)"
  "isDeploymentPipeline recent10" "State recent10 = ''failed''"
  "parseTime (FinishedAt recent10) = Some (T0\<lparr>tMonth := 2, tDay := 5, tMin := 10\<rparr>)"
  by (simp_all add: old45_def recent10_def fields_mkBuild parsed parse_Feb5
      isDeploymentPipeline_mkBuild)

text \<open>
  C7, as stated, fails on a record that finished 10 days before the clock reading of
  2024-02-15 when the record is a passed build of \<open>core-stack-deployment-pipeline\<close>, or a
  canceled build of the tracked pipeline: the weekly and the daily series of that record
  alone are empty. (The canceled build is counted in the two deployment counts.)
\<close>

theorem ten_day_old_record_counterexample:
  "parseTime (FinishedAt otherRecent) = Some (T0\<lparr>tMonth := 2, tDay := 5, tMin := 10\<rparr>)
   \<and> unixNano (T0\<lparr>tMonth := 2, tDay := 5, tMin := 10\<rparr>)
       = unixNano mid_february - 10 * 86400000000000
   \<and> State otherRecent = ''passed''
   \<and> PipelineSlug otherRecent = ''core-stack-deployment-pipeline''
   \<and> weekly (aggregate (unixNano mid_february - 30 * 86400000000000) [otherRecent]) = emptyMetrics
   \<and> daily (aggregate (unixNano mid_february - 30 * 86400000000000) [otherRecent]) = emptyMetrics
   \<and> parseTime (FinishedAt canceledRecent) = Some (T0\<lparr>tMonth := 2, tDay := 5, tMin := 10\<rparr>)
   \<and> State canceledRecent = ''canceled''
   \<and> isDeploymentPipeline canceledRecent
   \<and> weekly (aggregate (unixNano mid_february - 30 * 86400000000000) [canceledRecent]) = emptyMetrics
   \<and> daily (aggregate (unixNano mid_february - 30 * 86400000000000) [canceledRecent]) = emptyMetrics
   \<and> weekly_deployments (aggregate (unixNano mid_february - 30 * 86400000000000) [canceledRecent]) = 1
   \<and> daily_deployments (aggregate (unixNano mid_february - 30 * 86400000000000) [canceledRecent]) = 1"
  by (simp add: recent_fields ten_days_before_mid_february otherRecent_series canceledRecent_series
      canceledRecent_deployments)

text \<open>
  C7, as the code has it. The handler calls \<open>getCachedBuilds\<close> once and computes both
  granularities from the list it returns, with the clock minus 30 days as the bound \<open>c\<close> of
  the daily window (the clock reading has a month between 1 and 12, as every \<open>time.Now()\<close>
  has). For every list of records: the daily series are keyed by \<open>dayKey\<close> (the calendar day
  \<open>YYYY-MM-DD\<close> of \<open>finishedAt\<close>) and are made of the records of the tracked pipeline whose
  \<open>finishedAt\<close> parses and lies strictly after \<open>c\<close>. Of these, the passed and the failed ones
  of day \<open>k\<close> are counted by \<open>Pd k\<close> and \<open>Fd k\<close>, and the failure-rate series runs over the
  sorted days with a positive count; the passed ones with a start that parses and lies
  strictly before \<open>finishedAt\<close> (the list \<open>Ed k\<close>) give the durations, and the duration series
  runs over the sorted days where that list is not empty, with its mean. The daily output
  is that of the list restricted to the records finished after \<open>c\<close>. Hence, for a passed or
  failed record of the tracked pipeline whose \<open>finishedAt\<close> parses: the week of its
  \<open>finishedAt\<close> is a week of the weekly failure-rate series, where the record is counted; if
  it finished 10 days before the clock, its day is a day of the daily failure-rate series;
  if it finished 45 days before the clock, it is in no day's records.
\<close>

theorem daily_from_same_records_last_30_days:
  fixes now stored :: time and builds :: "BuildkiteBuild list"
  assumes "1 \<le> tMonth now" "tMonth now \<le> 12"
  defines "c \<equiv> unixNano now - 30 * 86400000000000"
  defines "d \<equiv> daily (aggregate c builds)"
  defines "w \<equiv> weekly (aggregate c builds)"
  defines "Ed \<equiv> (\<lambda>k. filter (\<lambda>b. isDeploymentPipeline b \<and> eligibleDay c k b) builds)"
  defines "Pd \<equiv> (\<lambda>k. length (filter (\<lambda>b. isDeploymentPipeline b \<and> State b = ''passed''
                                         \<and> finishedInDay c k b) builds))"
  defines "Fd \<equiv> (\<lambda>k. length (filter (\<lambda>b. isDeploymentPipeline b \<and> State b = ''failed''
                                         \<and> finishedInDay c k b) builds))"
  defines "Pw \<equiv> (\<lambda>k. length (filter (\<lambda>b. isDeploymentPipeline b \<and> State b = ''passed''
                                         \<and> finishedIn k b) builds))"
  defines "Fw \<equiv> (\<lambda>k. length (filter (\<lambda>b. isDeploymentPipeline b \<and> State b = ''failed''
                                         \<and> finishedIn k b) builds))"
  shows "(\<exists>bs cache'.
            getCachedBuilds buildkiteCache (unixNano now) (unixNano stored) up (AddDate now 0 (-3) 0)
              = (Inr bs, cache')
          \<and> kpiBuildkiteCombinedAll configured buildkiteCache now stored up
              = (StatusOK (aggregate c bs), cache'))
       \<and> dt_keys (deployment_time d) = sorted_list_of_set {k. Ed k \<noteq> []}
       \<and> finite {k. Ed k \<noteq> []}
       \<and> avg_duration_mins (deployment_time d)
           = map (\<lambda>k. sum_list (map elapsedMinutes (Ed k)) / of_nat (length (Ed k)))
                 (dt_keys (deployment_time d))
       \<and> fr_keys (failure_rates d) = sorted_list_of_set {k. 0 < Pd k + Fd k}
       \<and> finite {k. 0 < Pd k + Fd k}
       \<and> failure_rate (failure_rates d)
           = map (\<lambda>k. of_nat (Fd k) / of_nat (Pd k + Fd k) * 100) (fr_keys (failure_rates d))
       \<and> passed (failure_rates d) = map Pd (fr_keys (failure_rates d))
       \<and> failed (failure_rates d) = map Fd (fr_keys (failure_rates d))
       \<and> d = daily (aggregate c (filter (finishedAfter c) builds))
       \<and> passed (failure_rates w) = map Pw (fr_keys (failure_rates w))
       \<and> failed (failure_rates w) = map Fw (fr_keys (failure_rates w))
       \<and> (\<forall>b \<in> set builds. \<forall>f.
             isDeploymentPipeline b \<and> (State b = ''passed'' \<or> State b = ''failed'')
             \<and> parseTime (FinishedAt b) = Some f
             \<longrightarrow> finishedIn (weekKey f) b
                 \<and> weekKey f \<in> set (fr_keys (failure_rates w))
                 \<and> (unixNano f = unixNano now - 10 * 86400000000000
                      \<longrightarrow> finishedInDay c (dayKey f) b
                          \<and> dayKey f \<in> set (fr_keys (failure_rates d)))
                 \<and> (unixNano f = unixNano now - 45 * 86400000000000
                      \<longrightarrow> (\<forall>k. \<not> finishedInDay c k b \<and> \<not> eligibleDay c k b)))"
proof -
  obtain bs cache' where
    g: "getCachedBuilds buildkiteCache (unixNano now) (unixNano stored) up (AddDate now 0 (-3) 0)
          = (Inr bs, cache')"
    using getCachedBuilds_Inr by blast
  have "kpiBuildkiteCombinedAll configured buildkiteCache now stored up
          = (StatusOK (aggregate c bs), cache')"
    using g AddDate_days [OF assms(1,2), of "-30"]
    by (simp add: kpiBuildkiteCombinedAll_configured c_def)
  with g have handler: "\<exists>bs cache'.
            getCachedBuilds buildkiteCache (unixNano now) (unixNano stored) up (AddDate now 0 (-3) 0)
              = (Inr bs, cache')
          \<and> kpiBuildkiteCombinedAll configured buildkiteCache now stored up
              = (StatusOK (aggregate c bs), cache')"
    by blast
  have dd: "d = metricsOf (foldl (stepWith dayKey (\<lambda>f. c < unixNano f)) emptyAcc builds)"
    by (simp only: d_def daily_aggregate)
  have ww: "w = metricsOf (foldl (stepWith weekKey (\<lambda>f. True)) emptyAcc builds)"
    by (simp only: w_def weekly_aggregate)
  have d1: "\<And>k. bucketDurations dayKey (\<lambda>f. c < unixNano f) k builds = map elapsedMinutes (Ed k)"
    by (simp only: Ed_def bucketDurations_day)
  have d2: "\<And>k. bucketCount ''passed'' dayKey (\<lambda>f. c < unixNano f) k builds = Pd k"
    by (simp only: Pd_def bucketCount_day)
  have d3: "\<And>k. bucketCount ''failed'' dayKey (\<lambda>f. c < unixNano f) k builds = Fd k"
    by (simp only: Fd_def bucketCount_day)
  note sd = series_of_fold [of dayKey "\<lambda>f. c < unixNano f" builds Ed Pd Fd, OF d1 d2 d3, folded dd]
  have w1: "\<And>k. bucketDurations weekKey (\<lambda>f. True) k builds
      = map elapsedMinutes (filter (\<lambda>b. isDeploymentPipeline b \<and> eligible k b) builds)"
    by (rule bucketDurations_week)
  have w2: "\<And>k. bucketCount ''passed'' weekKey (\<lambda>f. True) k builds = Pw k"
    by (simp only: Pw_def bucketCount_week)
  have w3: "\<And>k. bucketCount ''failed'' weekKey (\<lambda>f. True) k builds = Fw k"
    by (simp only: Fw_def bucketCount_week)
  note sw = series_of_fold [of weekKey "\<lambda>f. True" builds _ Pw Fw, OF w1 w2 w3, folded ww]
  have window: "d = daily (aggregate c (filter (finishedAfter c) builds))"
    unfolding d_def by (rule daily_aggregate_in_window)
  have contrib: "finishedIn (weekKey f) b
                 \<and> weekKey f \<in> set (fr_keys (failure_rates w))
                 \<and> (unixNano f = unixNano now - 10 * 86400000000000
                      \<longrightarrow> finishedInDay c (dayKey f) b
                          \<and> dayKey f \<in> set (fr_keys (failure_rates d)))
                 \<and> (unixNano f = unixNano now - 45 * 86400000000000
                      \<longrightarrow> (\<forall>k. \<not> finishedInDay c k b \<and> \<not> eligibleDay c k b))"
    if b: "b \<in> set builds" and tr: "isDeploymentPipeline b"
      and st: "State b = ''passed'' \<or> State b = ''failed''"
      and pf: "parseTime (FinishedAt b) = Some f" for b f
  proof -
    have fin: "finishedIn (weekKey f) b"
      using pf by (simp add: finishedIn_def)
    have "0 < Pw (weekKey f) \<or> 0 < Fw (weekKey f)"
      using st
    proof
      assume "State b = ''passed''"
      with b tr fin have "0 < Pw (weekKey f)"
        unfolding Pw_def by (intro count_pos [of b]) auto
      then show ?thesis ..
    next
      assume "State b = ''failed''"
      with b tr fin have "0 < Fw (weekKey f)"
        unfolding Fw_def by (intro count_pos [of b]) auto
      then show ?thesis ..
    qed
    then have wk: "weekKey f \<in> set (fr_keys (failure_rates w))"
      by (simp only: sw(11)) auto
    have recent: "finishedInDay c (dayKey f) b \<and> dayKey f \<in> set (fr_keys (failure_rates d))"
      if "unixNano f = unixNano now - 10 * 86400000000000"
    proof -
      have find: "finishedInDay c (dayKey f) b"
        using pf that by (simp add: finishedInDay_def c_def)
      have "0 < Pd (dayKey f) \<or> 0 < Fd (dayKey f)"
        using st
      proof
        assume "State b = ''passed''"
        with b tr find have "0 < Pd (dayKey f)"
          unfolding Pd_def by (intro count_pos [of b]) auto
        then show ?thesis ..
      next
        assume "State b = ''failed''"
        with b tr find have "0 < Fd (dayKey f)"
          unfolding Fd_def by (intro count_pos [of b]) auto
        then show ?thesis ..
      qed
      then have "dayKey f \<in> set (fr_keys (failure_rates d))"
        by (simp only: sd(11)) auto
      with find show ?thesis ..
    qed
    have old: "\<not> finishedInDay c k b \<and> \<not> eligibleDay c k b"
      if "unixNano f = unixNano now - 45 * 86400000000000" for k
      using pf that by (simp add: finishedInDay_def eligibleDay_def c_def split: option.splits)
    from fin wk recent old show ?thesis by blast
  qed
  show ?thesis
    apply (intro conjI)
                apply (rule handler)
               apply (rule sd(1))
              apply (rule sd(2))
             apply (rule sd(3))
            apply (rule sd(4))
           apply (rule sd(5))
          apply (rule sd(6))
         apply (rule sd(7))
        apply (rule sd(8))
       apply (rule window)
      apply (rule sw(7))
     apply (rule sw(8))
    using contrib apply blast
    done
qed

theorem daily_from_same_records_last_30_days_witness:
  "1 \<le> tMonth mid_february \<and> tMonth mid_february \<le> 12
   \<and> old45 \<in> set [old45, recent10] \<and> recent10 \<in> set [old45, recent10]
   \<and> isDeploymentPipeline old45 \<and> State old45 = ''passed''
   \<and> parseTime (FinishedAt old45) = Some (T0\<lparr>tMin := 10\<rparr>)
   \<and> unixNano (T0\<lparr>tMin := 10\<rparr>) = unixNano mid_february - 45 * 86400000000000
   \<and> weekKey (T0\<lparr>tMin := 10\<rparr>) = ''2024-W01''
   \<and> isDeploymentPipeline recent10 \<and> State recent10 = ''failed''
   \<and> parseTime (FinishedAt recent10) = Some (T0\<lparr>tMonth := 2, tDay := 5, tMin := 10\<rparr>)
   \<and> unixNano (T0\<lparr>tMonth := 2, tDay := 5, tMin := 10\<rparr>) = unixNano mid_february - 10 * 86400000000000
   \<and> weekKey (T0\<lparr>tMonth := 2, tDay := 5, tMin := 10\<rparr>) = ''2024-W06''
   \<and> dayKey (T0\<lparr>tMonth := 2, tDay := 5, tMin := 10\<rparr>) = ''2024-02-05''
   \<and> fr_keys (failure_rates (weekly (aggregate (unixNano mid_february - 30 * 86400000000000)
                                            [old45, recent10])))
       = [''2024-W01'', ''2024-W06'']
   \<and> daily (aggregate (unixNano mid_february - 30 * 86400000000000) [old45, recent10])
       = \<lparr>deployment_time = \<lparr>dt_keys = [], avg_duration_mins = []\<rparr>,
          failure_rates = \<lparr>fr_keys = [''2024-02-05''], failure_rate = [100],
                           passed = [0], failed = [1]\<rparr>\<rparr>
   \<and> kpiBuildkiteCombinedAll configured None mid_february mid_february (legacyOnly [old45, recent10])
       = (StatusOK (aggregate (unixNano mid_february - 30 * 86400000000000) [old45, recent10]),
          Some \<lparr>Builds = [old45, recent10], FetchedAt = unixNano mid_february\<rparr>)"
proof -
  have m: "1 \<le> tMonth mid_february" "tMonth mid_february \<le> 12"
    by (simp_all add: mid_february_def T0_def)
  have g: "getCachedBuilds None (unixNano mid_february) (unixNano mid_february)
             (legacyOnly [old45, recent10]) (AddDate mid_february 0 (-3) 0)
           = (Inr [old45, recent10], Some \<lparr>Builds = [old45, recent10], FetchedAt = unixNano mid_february\<rparr>)"
    by (simp add: getCachedBuilds_def fetch_legacyOnly buildkitePerPage_def)
  note t = daily_from_same_records_last_30_days [OF m, where buildkiteCache = None
      and stored = mid_february and up = "legacyOnly [old45, recent10]"
      and builds = "[old45, recent10]"]
  have k: "kpiBuildkiteCombinedAll configured None mid_february mid_february (legacyOnly [old45, recent10])
       = (StatusOK (aggregate (unixNano mid_february - 30 * 86400000000000) [old45, recent10]),
          Some \<lparr>Builds = [old45, recent10], FetchedAt = unixNano mid_february\<rparr>)"
    using g t [THEN conjunct1] by simp
  show ?thesis
    using m k
    by (simp add: old_recent_fields ten_days_before_mid_february weekKey_T0 keys_Feb5
        old_recent_series old_recent_daily)
qed

section \<open>The order of the bucket keys\<close>

lemma div_step:
  fixes y k :: int
  assumes "0 < k"
  shows "y div k = (y - 1) div k + (if y mod k = 0 then 1 else 0)"
proof (cases "y mod k = 0")
  case True
  have "y - 1 = k * (y div k - 1) + (k - 1)"
    using True mult_div_mod_eq [of k y] by (simp add: algebra_simps)
  then have "(y - 1) div k = y div k - 1"
    using assms by (intro int_div_pos_eq [where r = "k - 1"]) simp_all
  with True show ?thesis by simp
next
  case False
  have r: "0 \<le> y mod k" "y mod k < k" using assms by simp_all
  have "y - 1 = k * (y div k) + (y mod k - 1)"
    using mult_div_mod_eq [of k y] by (simp add: algebra_simps)
  then have "(y - 1) div k = y div k"
    using assms r False by (intro int_div_pos_eq [where r = "y mod k - 1"]) simp_all
  with False show ?thesis by simp
qed

lemma mod_100_4: "(y::int) mod 100 = 0 \<Longrightarrow> y mod 4 = 0"
  using mod_mod_cancel [of 4 100 y] by simp

lemma mod_400_100: "(y::int) mod 400 = 0 \<Longrightarrow> y mod 100 = 0"
  using mod_mod_cancel [of 100 400 y] by simp

lemma daysBeforeYear_Suc: "daysBeforeYear (y + 1) = daysBeforeYear y + yearLen y"
proof -
  define i4 :: int where "i4 = (if y mod 4 = 0 then 1 else 0)"
  define i100 :: int where "i100 = (if y mod 100 = 0 then 1 else 0)"
  define i400 :: int where "i400 = (if y mod 400 = 0 then 1 else 0)"
  define p4 p100 p400 where "p4 = (y - 1) div 4" and "p100 = (y - 1) div 100"
    and "p400 = (y - 1) div 400"
  define q4 q100 q400 where "q4 = y div 4" and "q100 = y div 100" and "q400 = y div 400"
  have a: "q4 = p4 + i4" unfolding i4_def q4_def p4_def by (rule div_step) simp
  have b: "q100 = p100 + i100" unfolding i100_def q100_def p100_def by (rule div_step) simp
  have c: "q400 = p400 + i400" unfolding i400_def q400_def p400_def by (rule div_step) simp
  have n: "daysBeforeYear (y + 1) = 365 * y + q4 - q100 + q400"
    by (simp add: daysBeforeYear_def q4_def q100_def q400_def)
  have o: "daysBeforeYear y = 365 * (y - 1) + p4 - p100 + p400"
    by (simp only: daysBeforeYear_def p4_def p100_def p400_def)
  have l: "yearLen y = 365 + i4 - i100 + i400"
  proof (cases "y mod 400 = 0")
    case True
    then have "y mod 100 = 0" by (rule mod_400_100)
    moreover from this have "y mod 4 = 0" by (rule mod_100_4)
    ultimately show ?thesis
      using True by (simp add: yearLen_def isLeap_def i4_def i100_def i400_def)
  next
    case n400: False
    show ?thesis
    proof (cases "y mod 100 = 0")
      case True
      then have "y mod 4 = 0" by (rule mod_100_4)
      with True n400 show ?thesis
        by (simp add: yearLen_def isLeap_def i4_def i100_def i400_def)
    next
      case False
      with n400 show ?thesis
        by (simp add: yearLen_def isLeap_def i4_def i100_def i400_def)
    qed
  qed
  show ?thesis
    unfolding n o l a b c by (simp add: algebra_simps)
qed

lemma yearLen_pos: "365 \<le> yearLen y" "yearLen y \<le> 366"
  by (simp_all add: yearLen_def)

lemma daysBeforeYear_mono_aux: "0 \<le> n \<Longrightarrow> daysBeforeYear y \<le> daysBeforeYear (y + n)"
proof (induction n rule: int_ge_induct)
  case base
  show ?case by simp
next
  case (step i)
  have "daysBeforeYear (y + (i + 1)) = daysBeforeYear (y + i) + yearLen (y + i)"
    using daysBeforeYear_Suc [of "y + i"] by (simp add: add.assoc)
  with step yearLen_pos(1) [of "y + i"] show ?case by linarith
qed

lemma daysBeforeYear_mono: "y \<le> z \<Longrightarrow> daysBeforeYear y \<le> daysBeforeYear z"
  using daysBeforeYear_mono_aux [of "z - y" y] by simp

lemma next_year_le: "y < z \<Longrightarrow> daysBeforeYear y + yearLen y \<le> daysBeforeYear z"
  using daysBeforeYear_mono [of "y + 1" z] daysBeforeYear_Suc [of y] by simp

text \<open>A day number has one year and one day of that year.\<close>

lemma year_day_lex:
  assumes "daysBeforeYear y1 + d1 \<le> daysBeforeYear y2 + d2"
      and "0 \<le> d1" "d2 < yearLen y2"
  shows "y1 < y2 \<or> (y1 = y2 \<and> d1 \<le> d2)"
proof (rule ccontr)
  assume "\<not> ?thesis"
  then consider "y2 < y1" | "y1 = y2" "d2 < d1" by linarith
  then show False
  proof cases
    case 1
    from next_year_le [OF 1] assms show False by linarith
  next
    case 2
    with assms show False by simp
  qed
qed

lemma daysBefore_mono: "i \<le> j \<Longrightarrow> j \<le> 12 \<Longrightarrow> daysBefore i \<le> daysBefore j"
proof -
  have s: "sorted [0, 31, 59, 90, 120, 151, 181, 212, 243, 273, 304, 334, 365 :: int]"
    by simp
  assume "i \<le> j" "j \<le> 12"
  then show ?thesis
    unfolding daysBefore_def by (intro sorted_nth_mono [OF s]) simp_all
qed

lemma monthStart_mono:
  assumes "1 \<le> m" "m \<le> n" "n \<le> 13"
  shows "monthStart y m \<le> monthStart y n"
proof -
  have "daysBefore (nat m - 1) \<le> daysBefore (nat n - 1)"
    using assms by (intro daysBefore_mono) auto
  with assms show ?thesis by (auto simp: monthStart_def)
qed

lemma month_end:
  assumes "1 \<le> m" "m \<le> 12"
  shows "monthStart y m + daysIn m y \<le> monthStart y (m + 1)"
proof (cases "m = 2")
  case True
  then show ?thesis by (simp add: monthStart_def daysIn_def daysBefore_def)
next
  case False
  have "nat (m + 1) - 1 = nat m" "nat m - 1 + 1 = nat m" using assms by auto
  with False assms show ?thesis
    by (auto simp: monthStart_def daysIn_def)
qed

lemma monthStart_13: "monthStart y 13 = yearLen y"
  by (simp add: monthStart_def yearLen_def daysBefore_def)

lemma monthStart_1: "monthStart y 1 = 0"
  by (simp add: monthStart_def daysBefore_def)

lemma yearDay_monthStart: "yearDay t = monthStart (tYear t) (tMonth t) + (tDay t - 1)"
  by (simp add: yearDay_def monthStart_def)

lemma yearDay_bounds:
  assumes "validTime t"
  shows "0 \<le> yearDay t" "yearDay t < yearLen (tYear t)"
proof -
  have m: "1 \<le> tMonth t" "tMonth t \<le> 12" and d: "1 \<le> tDay t" "tDay t \<le> daysIn (tMonth t) (tYear t)"
    using assms by (simp_all add: validTime_def)
  have "monthStart (tYear t) 1 \<le> monthStart (tYear t) (tMonth t)"
    using m by (intro monthStart_mono) simp_all
  with d show "0 \<le> yearDay t" by (simp add: yearDay_monthStart monthStart_1)
  have "monthStart (tYear t) (tMonth t + 1) \<le> monthStart (tYear t) 13"
    using m by (intro monthStart_mono) simp_all
  with month_end [OF m, of "tYear t"] d show "yearDay t < yearLen (tYear t)"
    by (simp add: yearDay_monthStart monthStart_13)
qed

lemma month_day_lex:
  assumes "validTime t1" "validTime t2" "tYear t1 = tYear t2" "yearDay t1 \<le> yearDay t2"
  shows "tMonth t1 < tMonth t2 \<or> (tMonth t1 = tMonth t2 \<and> tDay t1 \<le> tDay t2)"
proof (rule ccontr)
  assume "\<not> ?thesis"
  then consider "tMonth t2 < tMonth t1" | "tMonth t1 = tMonth t2" "tDay t2 < tDay t1" by linarith
  then show False
  proof cases
    case 1
    have m2: "1 \<le> tMonth t2" "tMonth t2 \<le> 12" and d2: "tDay t2 \<le> daysIn (tMonth t2) (tYear t2)"
      and m1: "tMonth t1 \<le> 12" and d1: "1 \<le> tDay t1"
      using assms by (simp_all add: validTime_def)
    have "monthStart (tYear t2) (tMonth t2 + 1) \<le> monthStart (tYear t2) (tMonth t1)"
      using 1 m2 m1 by (intro monthStart_mono) simp_all
    with month_end [OF m2, of "tYear t2"] d2 d1 assms(3,4) show False
      by (simp add: yearDay_monthStart)
  next
    case 2
    with assms(3,4) show False by (simp add: yearDay_monthStart)
  qed
qed

lemma absDays_le:
  assumes v1: "validTime t1" and v2: "validTime t2"
      and off: "tOffset t1 = tOffset t2" and le: "unixNano t1 \<le> unixNano t2"
  shows "absDays t1 \<le> absDays t2"
proof (rule ccontr)
  assume "\<not> absDays t1 \<le> absDays t2"
  then have d: "absDays t2 + 1 \<le> absDays t1" by simp
  define s1 where "s1 = tHour t1 * 3600 + tMin t1 * 60 + tSec t1"
  define s2 where "s2 = tHour t2 * 3600 + tMin t2 * 60 + tSec t2"
  have b1: "0 \<le> s1" using v1 by (simp add: validTime_def s1_def)
  have b2: "s2 < 86400" using v2 by (simp add: validTime_def s2_def)
  have n1: "0 \<le> tNsec t1" using v1 by (simp add: validTime_def)
  have n2: "tNsec t2 < 1000000000" using v2 by (simp add: validTime_def)
  have u1: "unixSec t1 = 86400 * absDays t1 - 62135596800 + s1 - tOffset t1"
    by (simp add: unixSec_def s1_def algebra_simps)
  have u2: "unixSec t2 = 86400 * absDays t2 - 62135596800 + s2 - tOffset t2"
    by (simp add: unixSec_def s2_def algebra_simps)
  have "unixSec t2 + 1 \<le> unixSec t1"
    using d b1 b2 off unfolding u1 u2 by linarith
  then have "1000000000 * unixSec t2 + 1000000000 \<le> 1000000000 * unixSec t1" by linarith
  moreover have "unixNano t1 = 1000000000 * unixSec t1 + tNsec t1"
    "unixNano t2 = 1000000000 * unixSec t2 + tNsec t2"
    by (simp_all add: unixNano_def)
  ultimately have "unixNano t2 < unixNano t1" using n1 n2 by linarith
  with le show False by simp
qed

lemma ISOWeek_thursday:
  assumes v: "validTime t"
  obtains Y yd where "ISOWeek t = (Y, yd div 7 + 1)"
    and "daysBeforeYear Y + yd = 7 * (absDays t div 7) + 3"
    and "0 \<le> yd" and "yd < yearLen Y"
proof -
  define m7 where "m7 = absDays t mod 7"
  have m: "0 \<le> m7" "m7 < 7" by (simp_all add: m7_def)
  have th: "7 * (absDays t div 7) + 3 = daysBeforeYear (tYear t) + yearDay t + (3 - m7)"
    using mult_div_mod_eq [of 7 "absDays t"] unfolding m7_def absDays_def by linarith
  define yd0 where "yd0 = yearDay t + (3 - m7)"
  have yb: "0 \<le> yearDay t" "yearDay t < yearLen (tYear t)"
    using v by (rule yearDay_bounds)+
  have iso: "ISOWeek t =
     (if yd0 < 0 then (tYear t - 1, (yd0 + yearLen (tYear t - 1)) div 7 + 1)
      else if yearLen (tYear t) \<le> yd0 then (tYear t + 1, (yd0 - yearLen (tYear t)) div 7 + 1)
      else (tYear t, yd0 div 7 + 1))"
    by (simp add: ISOWeek_def Let_def yd0_def m7_def)
  consider "yd0 < 0" | "yearLen (tYear t) \<le> yd0" | "0 \<le> yd0" "yd0 < yearLen (tYear t)"
    by linarith
  then show thesis
  proof cases
    case 1
    have p: "daysBeforeYear (tYear t) = daysBeforeYear (tYear t - 1) + yearLen (tYear t - 1)"
      using daysBeforeYear_Suc [of "tYear t - 1"] by simp
    show thesis
    proof (rule that [of "tYear t - 1" "yd0 + yearLen (tYear t - 1)"])
      show "ISOWeek t = (tYear t - 1, (yd0 + yearLen (tYear t - 1)) div 7 + 1)"
        using 1 by (simp add: iso)
      show "daysBeforeYear (tYear t - 1) + (yd0 + yearLen (tYear t - 1)) = 7 * (absDays t div 7) + 3"
        unfolding th yd0_def using p by linarith
      show "0 \<le> yd0 + yearLen (tYear t - 1)"
        using yb m yearLen_pos(1) [of "tYear t - 1"] unfolding yd0_def by linarith
      show "yd0 + yearLen (tYear t - 1) < yearLen (tYear t - 1)"
        using 1 by linarith
    qed
  next
    case 2
    have n: "\<not> yd0 < 0" using 2 yearLen_pos(1) [of "tYear t"] by linarith
    show thesis
    proof (rule that [of "tYear t + 1" "yd0 - yearLen (tYear t)"])
      show "ISOWeek t = (tYear t + 1, (yd0 - yearLen (tYear t)) div 7 + 1)"
        using 2 n by (simp add: iso)
      show "daysBeforeYear (tYear t + 1) + (yd0 - yearLen (tYear t)) = 7 * (absDays t div 7) + 3"
        unfolding th yd0_def using daysBeforeYear_Suc [of "tYear t"] by linarith
      show "0 \<le> yd0 - yearLen (tYear t)" using 2 by linarith
      show "yd0 - yearLen (tYear t) < yearLen (tYear t + 1)"
        using yb m yearLen_pos(1) [of "tYear t + 1"] unfolding yd0_def by linarith
    qed
  next
    case 3
    show thesis
    proof (rule that [of "tYear t" yd0])
      show "ISOWeek t = (tYear t, yd0 div 7 + 1)"
        using 3 by (simp add: iso)
      show "daysBeforeYear (tYear t) + yd0 = 7 * (absDays t div 7) + 3"
        unfolding th yd0_def by linarith
    qed (use 3 in simp_all)
  qed
qed

lemma week_range:
  assumes "0 \<le> yd" "yd < yearLen Y"
  shows "1 \<le> yd div 7 + 1" "yd div 7 + 1 \<le> 53"
proof -
  have "0 \<le> yd div 7" using assms(1) by (simp add: pos_imp_zdiv_nonneg_iff)
  then show "1 \<le> yd div 7 + 1" by simp
  have "yd \<le> 365" using assms(2) yearLen_pos(2) [of Y] by linarith
  then have "yd div 7 \<le> 365 div 7" by (rule zdiv_mono1) simp
  then show "yd div 7 + 1 \<le> 53" by simp
qed

lemma ISOWeek_mono:
  assumes v1: "validTime t1" and v2: "validTime t2" and le: "absDays t1 \<le> absDays t2"
  shows "fst (ISOWeek t1) < fst (ISOWeek t2)
       \<or> (fst (ISOWeek t1) = fst (ISOWeek t2) \<and> snd (ISOWeek t1) \<le> snd (ISOWeek t2))"
proof -
  obtain Y1 d1 where 1: "ISOWeek t1 = (Y1, d1 div 7 + 1)"
    "daysBeforeYear Y1 + d1 = 7 * (absDays t1 div 7) + 3" "0 \<le> d1" "d1 < yearLen Y1"
    using ISOWeek_thursday [OF v1] by blast
  obtain Y2 d2 where 2: "ISOWeek t2 = (Y2, d2 div 7 + 1)"
    "daysBeforeYear Y2 + d2 = 7 * (absDays t2 div 7) + 3" "0 \<le> d2" "d2 < yearLen Y2"
    using ISOWeek_thursday [OF v2] by blast
  have "absDays t1 div 7 \<le> absDays t2 div 7" using le by (rule zdiv_mono1) simp
  then have "daysBeforeYear Y1 + d1 \<le> daysBeforeYear Y2 + d2"
    unfolding 1(2) 2(2) by linarith
  from year_day_lex [OF this 1(3) 2(4)]
  have "Y1 < Y2 \<or> (Y1 = Y2 \<and> d1 \<le> d2)" .
  moreover have "d1 div 7 \<le> d2 div 7" if "d1 \<le> d2" using that by (rule zdiv_mono1) simp
  ultimately show ?thesis by (auto simp: 1(1) 2(1))
qed

lemma ISOWeek_week_range:
  assumes "validTime t"
  shows "1 \<le> snd (ISOWeek t)" "snd (ISOWeek t) \<le> 53"
proof -
  obtain Y d where 1: "ISOWeek t = (Y, d div 7 + 1)" "0 \<le> d" "d < yearLen Y"
    using ISOWeek_thursday [OF assms] by blast
  from week_range [OF 1(2,3)] show "1 \<le> snd (ISOWeek t)" "snd (ISOWeek t) \<le> 53"
    by (simp_all add: 1(1))
qed

lemma date_lex:
  assumes v1: "validTime t1" and v2: "validTime t2" and le: "absDays t1 \<le> absDays t2"
  shows "tYear t1 < tYear t2
       \<or> (tYear t1 = tYear t2
          \<and> (tMonth t1 < tMonth t2 \<or> (tMonth t1 = tMonth t2 \<and> tDay t1 \<le> tDay t2)))"
proof -
  have "tYear t1 < tYear t2 \<or> (tYear t1 = tYear t2 \<and> yearDay t1 \<le> yearDay t2)"
    using le yearDay_bounds(1) [OF v1] yearDay_bounds(2) [OF v2]
    unfolding absDays_def by (rule year_day_lex)
  then show ?thesis using month_day_lex [OF v1 v2] by blast
qed

lemma of_char_digitChar: "n < 10 \<Longrightarrow> of_char (digitChar n) = 48 + n"
proof -
  have "\<forall>n \<in> set [0 ..< 10]. of_char (digitChar n) = 48 + n"
    by (simp add: upt_rec digitChar_def)
  then show "n < 10 \<Longrightarrow> of_char (digitChar n) = 48 + n"
    by simp
qed

lemma digitChar_less: "a < 10 \<Longrightarrow> b < 10 \<Longrightarrow> digitChar a < digitChar b \<longleftrightarrow> a < b"
  by (simp add: less_char_def of_char_digitChar)

lemma digitChar_eq: "a < 10 \<Longrightarrow> b < 10 \<Longrightarrow> digitChar a = digitChar b \<longleftrightarrow> a = b"
  by (metis of_char_digitChar add_left_cancel)

lemma length_fixedWidth [simp]: "length (fixedWidth w n) = w"
  by (induction w arbitrary: n) simp_all

lemma append_less_same_length:
  fixes xs ys :: "'a::linorder list"
  assumes "length xs = length ys"
  shows "xs @ us < ys @ vs \<longleftrightarrow> xs < ys \<or> (xs = ys \<and> us < vs)"
  using assms by (induction xs ys rule: list_induct2) auto

lemma append_le_same_length:
  fixes xs ys :: "'a::linorder list"
  assumes "length xs = length ys"
  shows "xs @ us \<le> ys @ vs \<longleftrightarrow> xs < ys \<or> (xs = ys \<and> us \<le> vs)"
  using assms by (induction xs ys rule: list_induct2) auto

lemma fixedWidth_less:
  "x < y \<Longrightarrow> y < 10 ^ w \<Longrightarrow> fixedWidth w x < fixedWidth w y"
proof (induction w arbitrary: x y)
  case 0
  then show ?case by simp
next
  case (Suc w)
  have yd: "y div 10 < 10 ^ w" using Suc.prems(2) by (simp add: less_mult_imp_div_less mult.commute)
  have le: "x div 10 \<le> y div 10" using Suc.prems(1) by (simp add: div_le_mono)
  show ?case
  proof (cases "x div 10 < y div 10")
    case True
    from Suc.IH [OF True yd] show ?thesis
      by (simp add: append_less_same_length)
  next
    case False
    with le have eq: "x div 10 = y div 10" by simp
    have "x mod 10 < y mod 10"
      using Suc.prems(1) eq div_mult_mod_eq [of x 10] div_mult_mod_eq [of y 10] by linarith
    then have "digitChar (x mod 10) < digitChar (y mod 10)"
      by (simp add: digitChar_less)
    with eq show ?thesis by (simp add: append_less_same_length)
  qed
qed

lemma fixedWidth_le:
  "x \<le> y \<Longrightarrow> y < 10 ^ w \<Longrightarrow> fixedWidth w x \<le> fixedWidth w y"
  using fixedWidth_less [of x y w] by (cases "x = y") (simp_all add: less_imp_le)

lemma fixedWidth_zero: "fixedWidth w 0 = replicate w CHR ''0''"
  by (induction w) (simp_all add: digitChar_def replicate_append_same)

lemma pad_fixedWidth:
  "0 < w \<Longrightarrow> n < 10 ^ w \<Longrightarrow> replicate (w - length (digits n)) CHR ''0'' @ digits n = fixedWidth w n"
proof (induction w arbitrary: n)
  case 0
  then show ?case by simp
next
  case (Suc w)
  show ?case
  proof (cases "n < 10")
    case True
    then have "digits n = [digitChar n]" by (simp add: digits.simps)
    with True show ?thesis by (simp add: fixedWidth_zero)
  next
    case False
    then have d: "digits n = digits (n div 10) @ [digitChar (n mod 10)]"
      by (subst digits.simps) simp
    have w: "0 < w"
    proof (rule ccontr)
      assume "\<not> 0 < w"
      with Suc.prems False show False by simp
    qed
    have "n div 10 < 10 ^ w" using Suc.prems(2) by (simp add: less_mult_imp_div_less mult.commute)
    from Suc.IH [OF w this] show ?thesis by (simp add: d)
  qed
qed

lemma digits_nonempty: "digits n \<noteq> []"
  by (subst digits.simps) simp

lemma length_digits_ge:
  "10 ^ w \<le> n \<Longrightarrow> w < length (digits n)"
proof (induction w arbitrary: n)
  case 0
  show ?case using digits_nonempty [of n] by (cases "digits n") simp_all
next
  case (Suc w)
  define p where "p = (10::nat) ^ w"
  have "1 \<le> p" by (simp add: p_def)
  moreover have "10 * p \<le> n" using Suc.prems by (simp add: p_def)
  ultimately have "\<not> n < 10" by linarith
  then have d: "digits n = digits (n div 10) @ [digitChar (n mod 10)]"
    by (subst digits.simps) simp
  have "10 ^ w \<le> n div 10" using Suc.prems by (simp add: less_eq_div_iff_mult_less_eq mult.commute)
  from Suc.IH [OF this] show ?case by (simp add: d)
qed

lemma appendInt_fixedWidth:
  assumes "0 \<le> x" "0 < w" "x < 10 ^ w"
  shows "appendInt x w = fixedWidth w (nat x)"
proof -
  have "nat x < 10 ^ w" using assms by (simp add: nat_less_iff)
  from pad_fixedWidth [OF assms(2) this] assms(1) show ?thesis
    by (simp add: appendInt_def Let_def)
qed

lemma fmtInt_fixedWidth:
  assumes "0 \<le> x" "0 < w" "x < 10 ^ w"
  shows "fmtInt w x = fixedWidth w (nat x)"
proof -
  have "nat x < 10 ^ w" using assms by (simp add: nat_less_iff)
  from pad_fixedWidth [OF assms(2) this] assms(1) show ?thesis
    by (simp add: fmtInt_def Let_def)
qed

lemma fmtInt_unpadded:
  assumes "1000 \<le> x" "x \<le> 9999"
  shows "fmtInt 0 x = fixedWidth 4 (nat x)"
proof -
  have n: "nat x < 10 ^ 4" "10 ^ 3 \<le> nat x" using assms by simp_all
  from length_digits_ge [OF n(2)] have "4 - length (digits (nat x)) = 0" by simp
  with pad_fixedWidth [of 4 "nat x"] n(1) have "digits (nat x) = fixedWidth 4 (nat x)" by simp
  with assms show ?thesis by (simp add: fmtInt_def Let_def)
qed

lemma daysIn_le_31:
  assumes "1 \<le> m" "m \<le> 12"
  shows "daysIn m y \<le> 31"
proof -
  have "\<forall>k \<in> set [1 ..< 13]. daysBefore k - daysBefore (k - 1) \<le> 31"
    by (simp add: upt_rec daysBefore_def)
  moreover have "nat m \<in> set [1 ..< 13]" using assms by auto
  ultimately have "daysBefore (nat m) - daysBefore (nat m - 1) \<le> 31" by blast
  then show ?thesis by (simp add: daysIn_def)
qed

lemma dayKey_fixedWidth:
  assumes "validTime t"
  shows "dayKey t = fixedWidth 4 (nat (tYear t)) @ ''-'' @ fixedWidth 2 (nat (tMonth t))
                    @ ''-'' @ fixedWidth 2 (nat (tDay t))"
proof -
  have y: "0 \<le> tYear t" "tYear t < 10 ^ 4" and m: "1 \<le> tMonth t" "tMonth t \<le> 12"
    and d: "1 \<le> tDay t" "tDay t \<le> daysIn (tMonth t) (tYear t)"
    using assms by (simp_all add: validTime_def)
  have d': "tDay t < 10 ^ 2" using d daysIn_le_31 [OF m, of "tYear t"] by simp
  have m': "tMonth t < 10 ^ 2" using m by simp
  show ?thesis
    unfolding dayKey_def
    using appendInt_fixedWidth [OF y(1) _ y(2)] appendInt_fixedWidth [OF _ _ m']
      appendInt_fixedWidth [OF _ _ d'] m d
    by simp
qed

lemma weekKey_fixedWidth:
  assumes "validTime t" "1000 \<le> fst (ISOWeek t)" "fst (ISOWeek t) \<le> 9999"
  shows "weekKey t = fixedWidth 4 (nat (fst (ISOWeek t))) @ ''-W'' @ fixedWidth 2 (nat (snd (ISOWeek t)))"
proof -
  have w: "0 \<le> snd (ISOWeek t)" "snd (ISOWeek t) < 10 ^ 2"
    using ISOWeek_week_range [OF assms(1)] by simp_all
  show ?thesis
    using fmtInt_unpadded [OF assms(2,3)] fmtInt_fixedWidth [OF w(1) _ w(2)]
    by (simp add: weekKey_def case_prod_beta)
qed

lemma dayKey_mono:
  assumes v1: "validTime t1" and v2: "validTime t2" and le: "absDays t1 \<le> absDays t2"
  shows "dayKey t1 \<le> dayKey t2"
proof -
  have b1: "0 \<le> tYear t1" "0 \<le> tMonth t1" "0 \<le> tDay t1"
    using v1 by (simp_all add: validTime_def)
  have b2: "tYear t2 \<le> 9999" "tMonth t2 \<le> 12" "0 \<le> tMonth t2" "0 \<le> tDay t2"
      "tDay t2 \<le> daysIn (tMonth t2) (tYear t2)" "1 \<le> tMonth t2"
    using v2 by (simp_all add: validTime_def)
  have d2: "tDay t2 \<le> 31" using b2 daysIn_le_31 [of "tMonth t2" "tYear t2"] by simp
  from date_lex [OF v1 v2 le]
  consider "tYear t1 < tYear t2"
    | "tYear t1 = tYear t2" "tMonth t1 < tMonth t2"
    | "tYear t1 = tYear t2" "tMonth t1 = tMonth t2" "tDay t1 \<le> tDay t2"
    by blast
  then show ?thesis
  proof cases
    case 1
    then have "nat (tYear t1) < nat (tYear t2)" using b1 by simp
    moreover have "nat (tYear t2) < 10 ^ 4" using b2 by simp
    ultimately have "fixedWidth 4 (nat (tYear t1)) < fixedWidth 4 (nat (tYear t2))"
      by (rule fixedWidth_less)
    then show ?thesis
      by (simp add: dayKey_fixedWidth [OF v1] dayKey_fixedWidth [OF v2] append_le_same_length)
  next
    case 2
    then have "nat (tMonth t1) < nat (tMonth t2)" using b1 by simp
    moreover have "nat (tMonth t2) < 10 ^ 2" using b2 by simp
    ultimately have "fixedWidth 2 (nat (tMonth t1)) < fixedWidth 2 (nat (tMonth t2))"
      by (rule fixedWidth_less)
    then show ?thesis
      using 2(1)
      by (simp add: dayKey_fixedWidth [OF v1] dayKey_fixedWidth [OF v2] append_le_same_length)
  next
    case 3
    then have "nat (tDay t1) \<le> nat (tDay t2)" by simp
    moreover have "nat (tDay t2) < 10 ^ 2" using d2 by simp
    ultimately have "fixedWidth 2 (nat (tDay t1)) \<le> fixedWidth 2 (nat (tDay t2))"
      by (rule fixedWidth_le)
    then show ?thesis
      using 3(1,2)
      by (simp add: dayKey_fixedWidth [OF v1] dayKey_fixedWidth [OF v2] append_le_same_length)
  qed
qed

lemma weekKey_mono:
  assumes v1: "validTime t1" and v2: "validTime t2" and le: "absDays t1 \<le> absDays t2"
      and lo: "1000 \<le> fst (ISOWeek t1)" and hi: "fst (ISOWeek t2) \<le> 9999"
  shows "weekKey t1 \<le> weekKey t2"
proof -
  note m = ISOWeek_mono [OF v1 v2 le]
  have r1: "fst (ISOWeek t1) \<le> 9999" and r2: "1000 \<le> fst (ISOWeek t2)"
    using m lo hi by auto
  have w1: "0 \<le> snd (ISOWeek t1)" using ISOWeek_week_range(1) [OF v1] by simp
  have w2: "snd (ISOWeek t2) \<le> 53" using ISOWeek_week_range(2) [OF v2] by simp
  from m consider "fst (ISOWeek t1) < fst (ISOWeek t2)"
    | "fst (ISOWeek t1) = fst (ISOWeek t2)" "snd (ISOWeek t1) \<le> snd (ISOWeek t2)"
    by blast
  then show ?thesis
  proof cases
    case 1
    then have "nat (fst (ISOWeek t1)) < nat (fst (ISOWeek t2))" using lo by simp
    moreover have "nat (fst (ISOWeek t2)) < 10 ^ 4" using hi by simp
    ultimately have "fixedWidth 4 (nat (fst (ISOWeek t1))) < fixedWidth 4 (nat (fst (ISOWeek t2)))"
      by (rule fixedWidth_less)
    then show ?thesis
      by (simp add: weekKey_fixedWidth [OF v1 lo r1] weekKey_fixedWidth [OF v2 r2 hi]
          append_le_same_length)
  next
    case 2
    then have "nat (snd (ISOWeek t1)) \<le> nat (snd (ISOWeek t2))" by simp
    moreover have "nat (snd (ISOWeek t2)) < 10 ^ 2" using w2 by simp
    ultimately have "fixedWidth 2 (nat (snd (ISOWeek t1))) \<le> fixedWidth 2 (nat (snd (ISOWeek t2)))"
      by (rule fixedWidth_le)
    then show ?thesis
      using 2(1)
      by (simp add: weekKey_fixedWidth [OF v1 lo r1] weekKey_fixedWidth [OF v2 r2 hi]
          append_le_same_length)
  qed
qed

text \<open>
  C8, as the code has it. Two timestamps as \<open>parseTime\<close> yields them (civil fields in range,
  years 0 to 9999, see \<open>parseTime_valid\<close>) that carry the same zone offset: if the first is not later than the
  second, then its day key is lexicographically not greater; and so is its week key,
  provided the ISO week-years lie between 1000 and 9999, where \<open>%d\<close> prints four digits.
\<close>

theorem bucket_keys_ordered:
  assumes "validTime t1" "validTime t2" "tOffset t1 = tOffset t2" "unixNano t1 \<le> unixNano t2"
  shows "dayKey t1 \<le> dayKey t2
       \<and> (1000 \<le> fst (ISOWeek t1) \<and> fst (ISOWeek t2) \<le> 9999 \<longrightarrow> weekKey t1 \<le> weekKey t2)"
proof -
  have "absDays t1 \<le> absDays t2" using assms by (rule absDays_le)
  then show ?thesis
    using dayKey_mono [OF assms(1,2)] weekKey_mono [OF assms(1,2)] by blast
qed

lemma validTime_T0: "validTime T0" "validTime (T0\<lparr>tDay := 8\<rparr>)"
  by (simp_all add: validTime_def T0_def daysIn_def daysBefore_def isLeap_def)

lemma ISOWeek_T0: "ISOWeek T0 = (2024, 1)" "ISOWeek (T0\<lparr>tDay := 8\<rparr>) = (2024, 2)"
  by (simp_all add: key_eval T0_def)

theorem bucket_keys_ordered_witness:
  "validTime T0 \<and> validTime (T0\<lparr>tDay := 8\<rparr>) \<and> tOffset T0 = tOffset (T0\<lparr>tDay := 8\<rparr>)
   \<and> unixNano T0 \<le> unixNano (T0\<lparr>tDay := 8\<rparr>)
   \<and> 1000 \<le> fst (ISOWeek T0) \<and> fst (ISOWeek (T0\<lparr>tDay := 8\<rparr>)) \<le> 9999
   \<and> dayKey T0 \<le> dayKey (T0\<lparr>tDay := 8\<rparr>)
   \<and> dayKey T0 = ''2024-01-01'' \<and> dayKey (T0\<lparr>tDay := 8\<rparr>) = ''2024-01-08''
   \<and> weekKey T0 \<le> weekKey (T0\<lparr>tDay := 8\<rparr>)
   \<and> weekKey T0 = ''2024-W01'' \<and> weekKey (T0\<lparr>tDay := 8\<rparr>) = ''2024-W02''"
proof -
  have u: "unixNano T0 \<le> unixNano (T0\<lparr>tDay := 8\<rparr>)" by (simp add: unixNano_T0)
  have o: "tOffset T0 = tOffset (T0\<lparr>tDay := 8\<rparr>)" by simp
  show ?thesis
    using validTime_T0 o u bucket_keys_ordered [OF validTime_T0 o u]
    by (simp add: ISOWeek_T0 weekKey_T0 dayKey_T0)
qed

text \<open>
  C8, as stated, fails in two ways. A timestamp written with the offset +14:00 on Monday
  2024-01-08 is earlier than one written in UTC on Sunday 2024-01-07 at noon, yet both its
  day key and its week key are the greater ones. And the week key of June 999 is
  lexicographically greater than the week key of June 1000.
\<close>

theorem bucket_keys_counterexample:
  "parseTime ''2024-01-08T01:00:00+14:00'' = Some monday_east
   \<and> parseTime ''2024-01-07T12:00:00Z'' = Some sunday_utc
   \<and> unixNano monday_east \<le> unixNano sunday_utc
   \<and> dayKey monday_east = ''2024-01-08'' \<and> dayKey sunday_utc = ''2024-01-07''
   \<and> \<not> dayKey monday_east \<le> dayKey sunday_utc
   \<and> weekKey monday_east = ''2024-W02'' \<and> weekKey sunday_utc = ''2024-W01''
   \<and> \<not> weekKey monday_east \<le> weekKey sunday_utc
   \<and> parseTime ''0999-06-01T00:00:00Z'' = Some june_999
   \<and> parseTime ''1000-06-01T00:00:00Z'' = Some june_1000
   \<and> unixNano june_999 \<le> unixNano june_1000
   \<and> weekKey june_999 = ''999-W22'' \<and> weekKey june_1000 = ''1000-W22''
   \<and> \<not> weekKey june_999 \<le> weekKey june_1000"
proof -
  have p: "parseTime ''2024-01-08T01:00:00+14:00'' = Some monday_east"
    "parseTime ''2024-01-07T12:00:00Z'' = Some sunday_utc"
    "parseTime ''0999-06-01T00:00:00Z'' = Some june_999"
    "parseTime ''1000-06-01T00:00:00Z'' = Some june_1000"
    by (simp_all add: parse_eval monday_east_def sunday_utc_def june_999_def june_1000_def)
  have u: "unixNano monday_east \<le> unixNano sunday_utc" "unixNano june_999 \<le> unixNano june_1000"
    by (simp_all add: instant_eval monday_east_def sunday_utc_def june_999_def june_1000_def)
  have k: "dayKey monday_east = ''2024-01-08''" "dayKey sunday_utc = ''2024-01-07''"
    "weekKey monday_east = ''2024-W02''" "weekKey sunday_utc = ''2024-W01''"
    "weekKey june_999 = ''999-W22''" "weekKey june_1000 = ''1000-W22''"
    by (simp_all add: key_eval monday_east_def sunday_utc_def june_999_def june_1000_def)
  show ?thesis
    by (simp add: p u k)
qed

section \<open>The older duration handler\<close>

text \<open>
  A passed record of the tracked pipeline whose two timestamps are equal: the older
  handler records the duration 0 for its week, the combined handler records none.
\<close>

lemma equal_timestamps_in_the_two_handlers:
  "Mapping.lookup_default []
     (deploymentTimeStep Mapping.empty
        (mkBuild legacy ''passed'' ''2024-01-01T10:10:00Z'' ''2024-01-01T10:10:00Z''))
     ''2024-W01'' = [0]"
  "Mapping.lookup_default []
     (durations (fst (processBuilds t
        [mkBuild legacy ''passed'' ''2024-01-01T10:10:00Z'' ''2024-01-01T10:10:00Z''])))
     ''2024-W01'' = []"
proof -
  have nb: "\<not> Before (T0\<lparr>tMin := 10\<rparr>) (T0\<lparr>tMin := 10\<rparr>)" by (simp add: Before_def)
  have na: "\<not> After (T0\<lparr>tMin := 10\<rparr>) (T0\<lparr>tMin := 10\<rparr>)" by (simp add: After_def)
  have z: "Minutes (Sub (T0\<lparr>tMin := 10\<rparr>) (T0\<lparr>tMin := 10\<rparr>)) = 0"
    by (simp add: Minutes_def Sub_def satDuration_def maxDuration_def minDuration_def)
  show "Mapping.lookup_default []
     (deploymentTimeStep Mapping.empty
        (mkBuild legacy ''passed'' ''2024-01-01T10:10:00Z'' ''2024-01-01T10:10:00Z''))
     ''2024-W01'' = [0]"
    by (simp add: deploymentTimeStep_def fields_mkBuild isDeploymentPipeline_mkBuild parsed nb z
        weekKey_T0 appendAt_def lookup_default_update lookup_default_empty)
  show "Mapping.lookup_default []
     (durations (fst (processBuilds t
        [mkBuild legacy ''passed'' ''2024-01-01T10:10:00Z'' ''2024-01-01T10:10:00Z''])))
     ''2024-W01'' = []"
    by (simp only: fst_processBuilds lookup_durations_fold)
       (simp add: bucketDurations_def List.map_filter_def build_eval na)
qed

section \<open>Page collection when no page is empty\<close>

text \<open>
  When none of the later pages comes back empty, the collection loop reads every result,
  and the merged list is the same for every arrival order.
\<close>

lemma collect_without_empty_page:
  assumes "\<forall>p \<in> set ps. f p \<noteq> Inr []"
  shows "collect (map (\<lambda>p. \<lparr>page = p, outcome = f p\<rparr>) ps) m
     = (\<lambda>p. if p \<in> set ps then (case f p of Inr bs \<Rightarrow> Some bs | Inl err \<Rightarrow> m p) else m p)"
  using assms
proof (induction ps arbitrary: m)
  case Nil
  show ?case by simp
next
  case (Cons q ps)
  then have ih: "\<And>m. collect (map (\<lambda>p. \<lparr>page = p, outcome = f p\<rparr>) ps) m
     = (\<lambda>p. if p \<in> set ps then (case f p of Inr bs \<Rightarrow> Some bs | Inl err \<Rightarrow> m p) else m p)"
    by simp
  have q: "f q \<noteq> Inr []" using Cons.prems by simp
  show ?case
  proof (cases "f q")
    case (Inl err)
    then show ?thesis by (auto simp: ih)
  next
    case (Inr bs)
    with q have "bs \<noteq> []" by simp
    with Inr show ?thesis by (auto simp: ih fun_eq_iff split: sum.splits)
  qed
qed

lemma arrival_order_irrelevant_without_empty_page:
  assumes "arrivalOrder ps" "arrivalOrder qs"
      and "\<forall>p \<in> {2 ..< Suc buildkiteMaxPages}. pages up pipeline createdFrom p \<noteq> Inr []"
  shows "fetchBuildsFromPipeline (up\<lparr>arrival := \<lambda>pl. ps\<rparr>) pipeline createdFrom
       = fetchBuildsFromPipeline (up\<lparr>arrival := \<lambda>pl. qs\<rparr>) pipeline createdFrom"
proof -
  have s: "set ps = {2 ..< Suc buildkiteMaxPages}" "set qs = {2 ..< Suc buildkiteMaxPages}"
    using assms(1,2) by (simp_all add: arrivalOrder_def)
  have "collect (map (\<lambda>p. \<lparr>page = p, outcome = pages up pipeline createdFrom p\<rparr>) ps) m
      = collect (map (\<lambda>p. \<lparr>page = p, outcome = pages up pipeline createdFrom p\<rparr>) qs) m" for m
    using assms(3) by (simp add: collect_without_empty_page s)
  then show ?thesis
    unfolding fetchBuildsFromPipeline_def Let_def
    by (simp split: sum.splits)
qed

section \<open>Parsed timestamps\<close>

text \<open>Every timestamp that \<open>parseTime\<close> accepts has its civil fields in range.\<close>

lemma isDigit_digitVal: "isDigit c \<Longrightarrow> 0 \<le> digitVal c \<and> digitVal c \<le> 9"
  by (simp add: isDigit_def digitVal_def less_eq_char_def)

lemma getnum_nonneg: "getnum s fixed = Some (n, r) \<Longrightarrow> 0 \<le> n"
proof (cases "(s, fixed)" rule: getnum.cases)
  case (1 a b r' fx)
  assume g: "getnum s fixed = Some (n, r)"
  have "0 \<le> digitVal a * 10 + digitVal b" if "isDigit a" "isDigit b"
    using isDigit_digitVal [OF that(1)] isDigit_digitVal [OF that(2)] by linarith
  with g 1 show ?thesis
    by (auto split: if_splits dest: isDigit_digitVal)
next
  case (2 a fx)
  assume "getnum s fixed = Some (n, r)"
  with 2 show ?thesis by (auto split: if_splits dest: isDigit_digitVal)
next
  case (3 fx)
  assume "getnum s fixed = Some (n, r)"
  with 3 show ?thesis by simp
qed

lemma foldl_digits_bounds:
  "list_all isDigit s \<Longrightarrow> 0 \<le> a \<Longrightarrow>
     0 \<le> foldl (\<lambda>a c. 10 * a + digitVal c) a s
     \<and> foldl (\<lambda>a c. 10 * a + digitVal c) a s < (a + 1) * 10 ^ length s"
proof (induction s arbitrary: a)
  case Nil
  then show ?case by simp
next
  case (Cons c s)
  have c: "0 \<le> digitVal c" "digitVal c \<le> 9" using Cons.prems(1) by (simp_all add: isDigit_digitVal)
  have a': "0 \<le> 10 * a + digitVal c" using c Cons.prems(2) by simp
  have s: "list_all isDigit s" using Cons.prems(1) by simp
  note ih = Cons.IH [OF s a']
  have "(10 * a + digitVal c + 1) * 10 ^ length s \<le> (10 * a + 10) * 10 ^ length s"
    using c by (intro mult_right_mono) simp_all
  also have "\<dots> = (a + 1) * 10 ^ length (c # s)" by (simp add: algebra_simps)
  finally have "(10 * a + digitVal c + 1) * 10 ^ length s \<le> (a + 1) * 10 ^ length (c # s)" .
  with ih have "foldl (\<lambda>a c. 10 * a + digitVal c) (10 * a + digitVal c) s
      < (a + 1) * 10 ^ length (c # s)" by linarith
  with ih show ?case by simp
qed

lemma atoi_bounds: "atoi s = Some n \<Longrightarrow> 0 \<le> n \<and> n < 10 ^ length s"
  using foldl_digits_bounds [of s 0] by (auto simp: atoi_def split: if_splits)

lemma parseNanoseconds_bounds:
  assumes "parseNanoseconds ds = Some ns"
  shows "0 \<le> ns" "ns < 1000000000"
proof -
  obtain n where n: "atoi (take 9 ds) = Some n" "ns = n * 10 ^ (9 - length (take 9 ds))"
    using assms by (auto simp: parseNanoseconds_def Let_def)
  from atoi_bounds [OF n(1)] have b: "0 \<le> n" "n < 10 ^ length (take 9 ds)" by simp_all
  show "0 \<le> ns" using b n(2) by simp
  have "n * 10 ^ (9 - length (take 9 ds)) < 10 ^ length (take 9 ds) * 10 ^ (9 - length (take 9 ds))"
    using b(2) by (intro mult_strict_right_mono) simp_all
  also have "\<dots> = (10::int) ^ 9" by (simp flip: power_add)
  finally show "ns < 1000000000" using n(2) by simp
qed

lemma parseDateClock_valid:
  assumes "parseDateClock s = Some ((y, mo, d, h, mi, sec), r)"
  shows "0 \<le> y \<and> y \<le> 9999 \<and> 1 \<le> mo \<and> mo \<le> 12 \<and> 1 \<le> d \<and> d \<le> daysIn mo y
       \<and> 0 \<le> h \<and> h < 24 \<and> 0 \<le> mi \<and> mi < 60 \<and> 0 \<le> sec \<and> sec < 60"
proof -
  from assms obtain s1 s2 s3 s4 s5 s6 s7 s8 s9 where
    y: "atoi (take 4 s) = Some y" and
    g: "getnum s1 True = Some (mo, s2)" "getnum s3 True = Some (d, s4)"
       "getnum s5 False = Some (h, s6)" "getnum s7 True = Some (mi, s8)"
       "getnum s9 True = Some (sec, r)" and
    c: "\<not> (mo < 1 \<or> 12 < mo \<or> d < 1 \<or> daysIn mo y < d \<or> 24 \<le> h \<or> 60 \<le> mi \<or> 60 \<le> sec)"
    unfolding parseDateClock_def
    by (auto simp: bind_eq_Some_conv split: if_splits)
  from atoi_bounds [OF y] have "0 \<le> y" "y < 10 ^ length (take 4 s)" by simp_all
  moreover have "(10::int) ^ length (take 4 s) \<le> 10 ^ 4"
    by (intro power_increasing) simp_all
  ultimately have "0 \<le> y" "y \<le> 9999" by simp_all
  with c g show ?thesis by (auto dest: getnum_nonneg)
qed

lemma validTime_mkTime:
  assumes "parseDateClock s = Some (f, r)" "0 \<le> ns" "ns < 1000000000"
  shows "validTime (mkTime f ns off)"
proof -
  obtain y mo d h mi sec where f: "f = (y, mo, d, h, mi, sec)" by (cases f) auto
  from parseDateClock_valid [OF assms(1) [unfolded f]] assms(2,3) show ?thesis
    by (simp add: f mkTime_def validTime_def)
qed

lemma parseRFC3339_valid: "parseRFC3339 s = Some t \<Longrightarrow> validTime t"
  unfolding parseRFC3339_def Let_def
  by (auto simp: bind_eq_Some_conv split: if_splits
      intro!: validTime_mkTime dest: parseNanoseconds_bounds)

lemma parseMillisTZ_valid: "parseMillisTZ s = Some t \<Longrightarrow> validTime t"
  unfolding parseMillisTZ_def
  by (auto simp: bind_eq_Some_conv split: if_splits
      intro!: validTime_mkTime dest: parseNanoseconds_bounds)

lemma parseTime_valid: "parseTime s = Some t \<Longrightarrow> validTime t"
  by (auto simp: parseTime_def split: if_splits option.splits
      dest: parseRFC3339_valid parseMillisTZ_valid)

end
